theory Spec2Isabelle
  imports Main
begin

section \<open>Text\<close>

text \<open>
  The analyzer of \<^verbatim>\<open>src/services/CodebaseAnalyzer.ts\<close> works on JavaScript strings.  A string
  is modelled as a \<^typ>\<open>string\<close> whose characters are the code units below 256, so the
  model speaks about Latin-1 text.  Numbers that the code obtains with \<^verbatim>\<open>parseInt\<close> from a
  run of decimal digits are natural numbers here; a JavaScript number holds such an integer
  exactly up to \<open>2 ^ 53\<close>, so the model agrees with the code on every line number up to that
  bound.
\<close>

definition newline :: char where
  "newline = CHR 0x0A"

definition bslash :: char where
  "bslash = CHR 0x5C"

definition dquote :: char where
  "dquote = CHR 0x22"

definition squote :: char where
  "squote = CHR 0x27"

text \<open>\<^verbatim>\<open>content.split('\n')\<close>: the pieces between line feeds; never the empty array.\<close>

fun split_nl :: "string \<Rightarrow> string list" where
  "split_nl [] = [[]]"
| "split_nl (x # xs) =
     (if x = newline then [] # split_nl xs
      else (case split_nl xs of [] \<Rightarrow> [[x]] | l # ls \<Rightarrow> (x # l) # ls))"

text \<open>The character classes of ECMAScript regular expressions, on code units below 256.\<close>

definition is_digit :: "char \<Rightarrow> bool" where
  "is_digit c = (c \<in> set ''0123456789'')"

definition is_word :: "char \<Rightarrow> bool" where
  "is_word c =
     (c \<in> set (''abcdefghijklmnopqrstuvwxyz'' @ ''ABCDEFGHIJKLMNOPQRSTUVWXYZ'' @ ''0123456789_''))"

definition is_space :: "char \<Rightarrow> bool" where
  "is_space c = (c \<in> set [CHR 0x09, CHR 0x0A, CHR 0x0B, CHR 0x0C, CHR 0x0D, CHR 0x20, CHR 0xA0])"

definition is_line_terminator :: "char \<Rightarrow> bool" where
  "is_line_terminator c = (c \<in> set [CHR 0x0A, CHR 0x0D])"

text \<open>\<^verbatim>\<open>String.prototype.trim\<close> removes white space and line terminators at both ends.\<close>

definition trim :: "string \<Rightarrow> string" where
  "trim s = rev (dropWhile is_space (rev (dropWhile is_space s)))"

text \<open>
  \<^verbatim>\<open>parseInt(m)\<close> on a capture of \<^verbatim>\<open>\d+\<close>: the decimal value of the digits.
\<close>

definition digit_val :: "char \<Rightarrow> nat" where
  "digit_val c = of_char c - 48"

definition parseInt :: "string \<Rightarrow> nat" where
  "parseInt ds = foldl (\<lambda>n d. 10 * n + digit_val d) 0 ds"

text \<open>\<^verbatim>\<open>s.includes(sub)\<close>.\<close>

fun starts_with :: "string \<Rightarrow> string \<Rightarrow> bool" where
  "starts_with s [] = True"
| "starts_with [] (y # ys) = False"
| "starts_with (x # xs) (y # ys) = (x = y \<and> starts_with xs ys)"

fun str_includes :: "string \<Rightarrow> string \<Rightarrow> bool" where
  "str_includes [] sub = starts_with [] sub"
| "str_includes (x # xs) sub = (starts_with (x # xs) sub \<or> str_includes xs sub)"

section \<open>Regular expressions\<close>

text \<open>
  The regular expressions of the analyzer are kept as syntax trees and run by a backtracking
  matcher that follows the ECMAScript priorities: in a sequence the left part is varied last,
  an alternative tries its left branch first, a greedy quantifier tries the longest run first
  and a lazy one the shortest.  In the expressions modelled here every \<^verbatim>\<open>*\<close> and \<^verbatim>\<open>+\<close> stands on
  a single character class, every \<^verbatim>\<open>?\<close> on a part that cannot match the empty word, and no
  capture group stands under a quantifier or an alternative.
\<close>

datatype cclass =
    Lit char
  | Dot
  | Digit
  | Space
  | Word
  | OneOf string
  | NoneOf string

fun cmatch :: "cclass \<Rightarrow> char \<Rightarrow> bool" where
  "cmatch (Lit a) c = (c = a)"
| "cmatch Dot c = (\<not> is_line_terminator c)"
| "cmatch Digit c = is_digit c"
| "cmatch Space c = is_space c"
| "cmatch Word c = is_word c"
| "cmatch (OneOf cs) c = (c \<in> set cs)"
| "cmatch (NoneOf cs) c = (c \<notin> set cs)"

datatype greed = Greedy | Lazy

datatype regex =
    Atom cclass
  | Eps
  | Seq regex regex
  | Alt regex regex
  | Star greed cclass
  | Group nat regex

text \<open>\<^verbatim>\<open>x+\<close> and \<^verbatim>\<open>x+?\<close> on a class, \<^verbatim>\<open>r?\<close>, a literal word, and a sequence of parts.\<close>

definition Plus :: "greed \<Rightarrow> cclass \<Rightarrow> regex" where
  "Plus g cl = Seq (Atom cl) (Star g cl)"

definition Opt :: "regex \<Rightarrow> regex" where
  "Opt r = Alt r Eps"

definition Str :: "string \<Rightarrow> regex" where
  "Str w = foldr (\<lambda>a r. Seq (Atom (Lit a)) r) w Eps"

definition Cat :: "regex list \<Rightarrow> regex" where
  "Cat rs = foldr Seq rs Eps"

text \<open>
  A match array: index 0 holds the whole match and index \<open>i\<close> the capture of group \<open>i\<close>;
  \<open>None\<close> is \<^verbatim>\<open>undefined\<close>.
\<close>

type_synonym caps = "string option list"

text \<open>
  The inputs left after a run of characters of a class, shortest run first.
\<close>

fun star_ends :: "cclass \<Rightarrow> string \<Rightarrow> string list" where
  "star_ends cl [] = [[]]"
| "star_ends cl (x # xs) = (x # xs) # (if cmatch cl x then star_ends cl xs else [])"

text \<open>
  \<open>rmatch r s c\<close> lists, in the order in which backtracking reaches them, the ways in which
  \<open>r\<close> matches at the start of \<open>s\<close>: the input left over and the captures.
\<close>

fun rmatch :: "regex \<Rightarrow> string \<Rightarrow> caps \<Rightarrow> (string \<times> caps) list" where
  "rmatch (Atom cl) s c =
     (case s of [] \<Rightarrow> [] | x # xs \<Rightarrow> if cmatch cl x then [(xs, c)] else [])"
| "rmatch Eps s c = [(s, c)]"
| "rmatch (Seq a b) s c = concat (map (\<lambda>(s', c'). rmatch b s' c') (rmatch a s c))"
| "rmatch (Alt a b) s c = rmatch a s c @ rmatch b s c"
| "rmatch (Star g cl) s c =
     map (\<lambda>s'. (s', c)) (case g of Lazy \<Rightarrow> star_ends cl s | Greedy \<Rightarrow> rev (star_ends cl s))"
| "rmatch (Group i r) s c =
     map (\<lambda>(s', c'). (s', c'[i := Some (take (length s - length s') s)])) (rmatch r s c)"

fun ngroups :: "regex \<Rightarrow> nat" where
  "ngroups (Seq a b) = ngroups a + ngroups b"
| "ngroups (Alt a b) = ngroups a + ngroups b"
| "ngroups (Group i r) = Suc (ngroups r)"
| "ngroups r = 0"

text \<open>
  \<^verbatim>\<open>s.match(re)\<close> for an expression without the \<^verbatim>\<open>g\<close> flag: the first way of matching at
  the leftmost start that has one, as a match array, or \<open>None\<close> for \<^verbatim>\<open>null\<close>.
\<close>

fun search :: "regex \<Rightarrow> nat \<Rightarrow> string \<Rightarrow> caps option" where
  "search r n s =
     (case rmatch r s (replicate (Suc n) None) of
        (s', c) # _ \<Rightarrow> Some (c[0 := Some (take (length s - length s') s)])
      | [] \<Rightarrow> (case s of [] \<Rightarrow> None | _ # t \<Rightarrow> search r n t))"

definition re_match :: "regex \<Rightarrow> string \<Rightarrow> caps option" where
  "re_match r s = search r (ngroups r) s"

text \<open>Reading a match array: an index out of range is \<^verbatim>\<open>undefined\<close> too.\<close>

definition at :: "caps \<Rightarrow> nat \<Rightarrow> string option" where
  "at m i = (if i < length m then m ! i else None)"

section \<open>Stack frames\<close>

text \<open>\<^verbatim>\<open>StackTraceFrame\<close>; \<open>func\<close> is its field \<^verbatim>\<open>function\<close>.\<close>

record frame =
  filename :: string
  func :: string
  line :: nat
  column :: "nat option"

datatype js_error = TypeError

text \<open>
  A recognizer of \<^verbatim>\<open>parseStackTrace\<close>: the text of the regular expression, which the code
  inspects through \<^verbatim>\<open>pattern.source\<close>, and its syntax tree.
\<close>

record pat =
  source :: string
  expr :: regex

definition pat_ruby_from :: pat where
  "pat_ruby_from =
     \<lparr>source = ''from'' @ [bslash] @ ''s+(.+?):('' @ [bslash] @ ''d+):in'' @ [bslash] @ ''s+`(.+?)''
                 @ [squote],
      expr = Cat [Str ''from'', Plus Greedy Space, Group 1 (Plus Lazy Dot), Str '':'',
                  Group 2 (Plus Greedy Digit), Str '':in'', Plus Greedy Space, Str ''`'',
                  Group 3 (Plus Lazy Dot), Str [squote]]\<rparr>"

definition pat_ruby_in :: pat where
  "pat_ruby_in =
     \<lparr>source = ''(.+?):('' @ [bslash] @ ''d+):in'' @ [bslash] @ ''s+`(.+?)'' @ [squote],
      expr = Cat [Group 1 (Plus Lazy Dot), Str '':'', Group 2 (Plus Greedy Digit), Str '':in'',
                  Plus Greedy Space, Str ''`'', Group 3 (Plus Lazy Dot), Str [squote]]\<rparr>"

definition pat_ruby_simple :: pat where
  "pat_ruby_simple =
     \<lparr>source = ''(.+'' @ [bslash] @ ''.rb):('' @ [bslash] @ ''d+)'',
      expr = Cat [Group 1 (Cat [Plus Greedy Dot, Str ''.rb'']), Str '':'',
                  Group 2 (Plus Greedy Digit)]\<rparr>"

definition pat_js :: pat where
  "pat_js =
     \<lparr>source = ''at'' @ [bslash] @ ''s+(.+?)'' @ [bslash] @ ''s+'' @ [bslash] @ ''((.+?):(''
                 @ [bslash] @ ''d+):('' @ [bslash] @ ''d+)'' @ [bslash] @ '')'',
      expr = Cat [Str ''at'', Plus Greedy Space, Group 1 (Plus Lazy Dot), Plus Greedy Space,
                  Str ''('', Group 2 (Plus Lazy Dot), Str '':'', Group 3 (Plus Greedy Digit),
                  Str '':'', Group 4 (Plus Greedy Digit), Str '')'']\<rparr>"

definition pat_python :: pat where
  "pat_python =
     \<lparr>source = ''File'' @ [bslash] @ ''s+'' @ [dquote] @ ''(.+?)'' @ [dquote] @ '','' @ [bslash]
                 @ ''s+line'' @ [bslash] @ ''s+('' @ [bslash] @ ''d+),'' @ [bslash] @ ''s+in''
                 @ [bslash] @ ''s+(.+)'',
      expr = Cat [Str ''File'', Plus Greedy Space, Str [dquote], Group 1 (Plus Lazy Dot),
                  Str (dquote # '',''), Plus Greedy Space, Str ''line'', Plus Greedy Space,
                  Group 2 (Plus Greedy Digit), Str '','', Plus Greedy Space, Str ''in'',
                  Plus Greedy Space, Group 3 (Plus Greedy Dot)]\<rparr>"

definition pat_java :: pat where
  "pat_java =
     \<lparr>source = ''at'' @ [bslash] @ ''s+(.+?)'' @ [bslash] @ ''((.+?):('' @ [bslash] @ ''d+)''
                 @ [bslash] @ '')'',
      expr = Cat [Str ''at'', Plus Greedy Space, Group 1 (Plus Lazy Dot), Str ''('',
                  Group 2 (Plus Lazy Dot), Str '':'', Group 3 (Plus Greedy Digit), Str '')'']\<rparr>"

definition pat_generic :: pat where
  "pat_generic =
     \<lparr>source = ''('' @ [bslash] @ ''w+)'' @ [bslash] @ ''s+(.+?):('' @ [bslash] @ ''d+)'',
      expr = Cat [Group 1 (Plus Greedy Word), Plus Greedy Space, Group 2 (Plus Lazy Dot),
                  Str '':'', Group 3 (Plus Greedy Digit)]\<rparr>"

definition patterns :: "pat list" where
  "patterns =
     [pat_ruby_from, pat_ruby_in, pat_ruby_simple, pat_js, pat_python, pat_java, pat_generic]"

text \<open>
  \<^verbatim>\<open>filename.replace(/^.*[\\\/]/, '')\<close>: the expression is tried at the start of the string
  only, and what it matches is cut off.
\<close>

definition dir_prefix :: regex where
  "dir_prefix = Seq (Star Greedy Dot) (Atom (OneOf [bslash, CHR ''/'']))"

definition strip_dirs :: "string \<Rightarrow> string" where
  "strip_dirs s = (case rmatch dir_prefix s [None] of [] \<Rightarrow> s | (s', c) # _ \<Rightarrow> s')"

text \<open>
  The frame pushed for a match.  The destructuring of the code reads captures of the match
  array; \<^verbatim>\<open>filename.replace\<close> raises a \<^verbatim>\<open>TypeError\<close> on \<^verbatim>\<open>undefined\<close>, and an undefined
  line or function capture would leave a field without a value.  The model reports all
  three as the error.  The column is read only in the branch taken for arrays of four or
  more entries, and is \<^verbatim>\<open>undefined\<close> when the array ends before index 4.
\<close>

definition mk_frame ::
  "string option \<Rightarrow> string option \<Rightarrow> string option \<Rightarrow> string option \<Rightarrow> js_error + frame" where
  "mk_frame fname lineNum functionName columnNum =
     (case (fname, lineNum, functionName) of
        (Some f, Some l, Some u) \<Rightarrow>
          Inr \<lparr>filename = strip_dirs f, func = u, line = parseInt l,
               column = map_option parseInt columnNum\<rparr>
      | _ \<Rightarrow> Inl TypeError)"

definition frame_of :: "pat \<Rightarrow> caps \<Rightarrow> js_error + frame" where
  "frame_of p m =
     (if str_includes (source p) (''from'' @ [bslash] @ ''s+'') then
        mk_frame (at m 1) (at m 2) (at m 3) None
      else if str_includes (source p) (''in'' @ [bslash] @ ''s+`'') then
        mk_frame (at m 1) (at m 2) (at m 3) None
      else if str_includes (source p) ([bslash] @ ''.rb'') then
        mk_frame (at m 1) (at m 2) (Some ''<unknown>'') None
      else if str_includes (source p) (''File'' @ [bslash] @ ''s+'') then
        mk_frame (at m 1) (at m 2) (at m 3) None
      else if length m \<ge> 4 then
        mk_frame (at m 2) (at m 3) (at m 1) (at m 4)
      else
        mk_frame (at m 2) (at m 3) (at m 1) None)"

text \<open>The inner loop over the recognizers: the first one that matches the line.\<close>

fun first_match :: "pat list \<Rightarrow> string \<Rightarrow> (pat \<times> caps) option" where
  "first_match [] l = None"
| "first_match (p # ps) l =
     (case re_match (expr p) l of Some m \<Rightarrow> Some (p, m) | None \<Rightarrow> first_match ps l)"

text \<open>The outer loop over the lines, and \<^verbatim>\<open>parseStackTrace\<close>.\<close>

fun parse_lines :: "string list \<Rightarrow> js_error + frame list" where
  "parse_lines [] = Inr []"
| "parse_lines (l # ls) =
     (case first_match patterns l of
        None \<Rightarrow> parse_lines ls
      | Some (p, m) \<Rightarrow>
          (case frame_of p m of
             Inl e \<Rightarrow> Inl e
           | Inr f \<Rightarrow> (case parse_lines ls of Inl e \<Rightarrow> Inl e | Inr fs \<Rightarrow> Inr (f # fs))))"

definition parseStackTrace :: "string \<Rightarrow> js_error + frame list" where
  "parseStackTrace stackTrace = parse_lines (split_nl stackTrace)"

section \<open>Context extraction\<close>

text \<open>
  An entry of \<^verbatim>\<open>relevantLines\<close>, as \<^verbatim>\<open>getContextLines\<close> builds it; \<open>context_role\<close> is its field
  \<^verbatim>\<open>context\<close>.
\<close>

datatype role = Before | Target | After

record context_line =
  lineNumber :: int
  content :: string
  context_role :: role

text \<open>
  \<^verbatim>\<open>getContextLines\<close>, with the 0-based index and the radius as the integers they are in the
  code.  The loop runs \<open>i\<close> from \<open>start\<close> to \<open>end - 1\<close>; every such \<open>i\<close> is an index of
  \<open>lines\<close> (lemma \<open>getContextLines_index\<close> below), so \<^verbatim>\<open>lines[i]\<close> is never \<^verbatim>\<open>undefined\<close>.
\<close>

definition getContextLines :: "string list \<Rightarrow> int \<Rightarrow> int \<Rightarrow> context_line list" where
  "getContextLines lines targetLine contextSize =
     (let start = max 0 (targetLine - contextSize);
          end' = min (int (length lines)) (targetLine + contextSize + 1)
      in map (\<lambda>i. \<lparr>lineNumber = i + 1, content = lines ! nat i,
                     context_role = (if i < targetLine then Before
                                     else if i = targetLine then Target else After)\<rparr>)
             [start..end' - 1])"

text \<open>The declaration recognizers of \<^verbatim>\<open>findContainingFunction\<close>, in the order of the code.\<close>

definition ruby_name :: regex where
  "ruby_name = Cat [Plus Greedy Word, Opt (Atom (OneOf ''!?''))]"

definition paren_args :: regex where
  "paren_args = Cat [Str ''('', Star Greedy (NoneOf '')''), Str '')'']"

definition declaration_patterns :: "regex list" where
  "declaration_patterns =
     [Cat [Str ''def'', Plus Greedy Space, Opt (Str ''self.''), Group 1 ruby_name],
      Cat [Str ''def'', Plus Greedy Space, Str ''self.'', Group 1 ruby_name],
      Cat [Group 1 (Plus Greedy Word), Star Greedy Space, Str ''='', Star Greedy Space,
           Alt (Str ''lambda'') (Str ''proc''), Star Greedy Space, Str ''{''],
      Cat [Group 1 (Plus Greedy Word), Star Greedy Space, Str ''='', Star Greedy Space,
           Str ''->'', Star Greedy Space, Str ''(''],
      Cat [Str ''function'', Plus Greedy Space, Group 1 (Plus Greedy Word)],
      Cat [Group 1 (Plus Greedy Word), Star Greedy Space, Str '':'', Star Greedy Space,
           Str ''function''],
      Cat [Group 1 (Plus Greedy Word), Star Greedy Space, paren_args, Star Greedy Space,
           Str ''{''],
      Cat [Str ''const'', Plus Greedy Space, Group 1 (Plus Greedy Word), Star Greedy Space,
           Str ''='', Star Greedy Space, paren_args, Star Greedy Space, Str ''=>''],
      Cat [Group 1 (Plus Greedy Word), Star Greedy Space, Str ''='', Star Greedy Space,
           paren_args, Star Greedy Space, Str ''=>''],
      Cat [Str ''def'', Plus Greedy Space, Group 1 (Plus Greedy Word)],
      Cat [Opt (Alt (Str ''public'') (Alt (Str ''private'') (Str ''protected''))),
           Star Greedy Space, Opt (Str ''static''), Star Greedy Space, Plus Greedy Word,
           Plus Greedy Space, Group 1 (Plus Greedy Word), Star Greedy Space, Str ''('']]"

text \<open>The first recognizer that matches a line, with its match array.\<close>

fun first_declaration :: "regex list \<Rightarrow> string \<Rightarrow> caps option" where
  "first_declaration [] l = None"
| "first_declaration (r # rs) l =
     (case re_match r l of Some m \<Rightarrow> Some m | None \<Rightarrow> first_declaration rs l)"

text \<open>
  The backward loop \<^verbatim>\<open>for (let i = targetLine; i >= 0; i--)\<close>.  \<^verbatim>\<open>lines[i].trim()\<close> raises a
  \<^verbatim>\<open>TypeError\<close> when \<open>i\<close> is not an index of \<open>lines\<close>.  The result \<open>None\<close> is the \<^verbatim>\<open>null\<close> of
  the code (and the \<^verbatim>\<open>undefined\<close> that \<^verbatim>\<open>match[1]\<close> would be for a missing capture).
\<close>

fun scan_back :: "string list \<Rightarrow> nat \<Rightarrow> js_error + string option" where
  "scan_back lines 0 =
     (if 0 < length lines then
        (case first_declaration declaration_patterns (trim (lines ! 0)) of
           Some m \<Rightarrow> Inr (at m 1) | None \<Rightarrow> Inr None)
      else Inl TypeError)"
| "scan_back lines (Suc i) =
     (if Suc i < length lines then
        (case first_declaration declaration_patterns (trim (lines ! Suc i)) of
           Some m \<Rightarrow> Inr (at m 1) | None \<Rightarrow> scan_back lines i)
      else Inl TypeError)"

definition findContainingFunction :: "string list \<Rightarrow> int \<Rightarrow> js_error + string option" where
  "findContainingFunction lines targetLine =
     (if targetLine < 0 then Inr None else scan_back lines (nat targetLine))"

section \<open>Files\<close>

text \<open>
  What the analyzer takes from outside: \<^verbatim>\<open>fs.readFile(path, 'utf-8')\<close> (\<open>None\<close> when it
  throws), \<^verbatim>\<open>path.join\<close>, the file list that \<^verbatim>\<open>glob\<close> returns for the fixed patterns of
  \<^verbatim>\<open>analyzeCodebase\<close> with \<^verbatim>\<open>cwd\<close> set to the root, and the test of the \<^verbatim>\<open>ignore\<close> package
  whether the rules of a \<^verbatim>\<open>.gitignore\<close> text exclude a path.
\<close>

record env =
  readFile :: "string \<Rightarrow> string option"
  path_join :: "string list \<Rightarrow> string"
  glob :: "string \<Rightarrow> string list"
  ignores :: "string \<Rightarrow> string \<Rightarrow> bool"

text \<open>
  \<^verbatim>\<open>FileAnalysis\<close>; \<open>file_content\<close> is its field \<^verbatim>\<open>content\<close>.  The fields \<^verbatim>\<open>functions\<close> and
  \<^verbatim>\<open>imports\<close>, which nothing below reads, are left out; \<^verbatim>\<open>extractFunctions\<close> and
  \<^verbatim>\<open>extractImports\<close> do not throw.
\<close>

record file_analysis =
  path :: string
  file_content :: string
  lineCount :: nat

definition analyzeFile :: "env \<Rightarrow> string \<Rightarrow> file_analysis option" where
  "analyzeFile e filePath =
     (case readFile e filePath of
        None \<Rightarrow> None
      | Some text \<Rightarrow>
          Some \<lparr>path = filePath, file_content = text, lineCount = length (split_nl text)\<rparr>)"

text \<open>
  The report of \<^verbatim>\<open>analyzeFileForStackFrame\<close> for one frame.  The code renders it as text;
  \<open>Context\<close> stands for the block with the file name, the line number, the marked context
  lines and, when a name was found, the function line, and \<open>FileNotFound\<close> for the
  sentence ``File not found: \<dots> May be from external library or different path
  structure.''  The language tag that \<^verbatim>\<open>getFileExtension\<close> adds to the code fence of the
  block is part of the rendering and is not modelled.
\<close>

datatype frame_report =
    Context string nat "context_line list" "string option"
  | FileNotFound string

definition possiblePaths :: "env \<Rightarrow> frame \<Rightarrow> string \<Rightarrow> string list" where
  "possiblePaths e fr codebasePath =
     [path_join e [codebasePath, filename fr],
      path_join e [codebasePath, ''src'', filename fr],
      path_join e [codebasePath, ''app'', filename fr]]"

text \<open>
  The loop over the candidate paths.  Everything in its body is inside \<^verbatim>\<open>try\<close>, so an
  exception of the read or of \<^verbatim>\<open>findContainingFunction\<close> moves on to the next candidate; so
  does a target line that is not an index of the file's lines.
\<close>

fun try_paths :: "env \<Rightarrow> frame \<Rightarrow> string list \<Rightarrow> frame_report" where
  "try_paths e fr [] = FileNotFound (filename fr)"
| "try_paths e fr (filePath # rest) =
     (case readFile e filePath of
        None \<Rightarrow> try_paths e fr rest
      | Some text \<Rightarrow>
          (let lines = split_nl text; targetLine = int (line fr) - 1
           in if targetLine \<ge> 0 \<and> targetLine < int (length lines) then
                (case findContainingFunction lines targetLine of
                   Inl err \<Rightarrow> try_paths e fr rest
                 | Inr functionName \<Rightarrow>
                     Context (filename fr) (line fr) (getContextLines lines targetLine 3)
                       functionName)
              else try_paths e fr rest))"

definition analyzeFileForStackFrame :: "env \<Rightarrow> frame \<Rightarrow> string \<Rightarrow> frame_report" where
  "analyzeFileForStackFrame e fr codebasePath = try_paths e fr (possiblePaths e fr codebasePath)"

text \<open>
  \<^verbatim>\<open>analyzeStackTrace\<close>: the sentence ``Could not parse stack trace'' when no frame was
  parsed; otherwise the numbered list of all frames (function, with \<^verbatim>\<open><anonymous>\<close> for an
  empty name, file name and line) and the reports of the first five.
\<close>

datatype analysis =
    CouldNotParse
  | Analysis "(string \<times> string \<times> nat) list" "frame_report list"

definition frame_entry :: "frame \<Rightarrow> string \<times> string \<times> nat" where
  "frame_entry fr = (if func fr = [] then ''<anonymous>'' else func fr, filename fr, line fr)"

definition analyzeStackTrace :: "env \<Rightarrow> string \<Rightarrow> string \<Rightarrow> js_error + analysis" where
  "analyzeStackTrace e stackTrace codebasePath =
     (case parseStackTrace stackTrace of
        Inl err \<Rightarrow> Inl err
      | Inr frames \<Rightarrow>
          if length frames = 0 then Inr CouldNotParse
          else Inr (Analysis (map frame_entry frames)
                      (map (\<lambda>fr. analyzeFileForStackFrame e fr codebasePath) (take 5 frames))))"

section \<open>Discovery\<close>

text \<open>
  The analyzer object has one field, the ignore rules of the last scan: the text of the
  \<^verbatim>\<open>.gitignore\<close> file they were built from, or \<open>None\<close> for \<^verbatim>\<open>null\<close>.
\<close>

record analyzer =
  gitignorePatterns :: "string option"

definition loadGitignore :: "env \<Rightarrow> string \<Rightarrow> analyzer \<Rightarrow> analyzer" where
  "loadGitignore e codebasePath a =
     a\<lparr>gitignorePatterns := readFile e (path_join e [codebasePath, ''.gitignore''])\<rparr>"

definition filterIgnoredFiles :: "env \<Rightarrow> analyzer \<Rightarrow> string list \<Rightarrow> string list" where
  "filterIgnoredFiles e a files =
     (case gitignorePatterns a of
        None \<Rightarrow> files
      | Some rules \<Rightarrow> filter (\<lambda>f. \<not> ignores e rules f) files)"

definition analyzeCodebase :: "env \<Rightarrow> analyzer \<Rightarrow> string \<Rightarrow> file_analysis list \<times> analyzer" where
  "analyzeCodebase e a codebasePath =
     (let a' = loadGitignore e codebasePath a;
          files = glob e codebasePath;
          filteredFiles = filterIgnoredFiles e a' files
      in (List.map_filter (\<lambda>file. analyzeFile e (path_join e [codebasePath, file]))
            (take 50 filteredFiles),
          a'))"

section \<open>Notions used in the statements\<close>

text \<open>
  The words a regular expression can match, with the captures it then sets: the reading of
  \<open>rmatch\<close> that forgets the order of backtracking (lemma \<open>set_rmatch\<close>).
\<close>

fun den :: "regex \<Rightarrow> caps \<Rightarrow> (string \<times> caps) set" where
  "den (Atom cl) c = {([x], c) | x. cmatch cl x}"
| "den Eps c = {([], c)}"
| "den (Seq a b) c = {(u @ v, c2) | u v c1 c2. (u, c1) \<in> den a c \<and> (v, c2) \<in> den b c1}"
| "den (Alt a b) c = den a c \<union> den b c"
| "den (Star g cl) c = {(w, c) | w. \<forall>x\<in>set w. cmatch cl x}"
| "den (Group i r) c = {(w, c1[i := Some w]) | w c1. (w, c1) \<in> den r c}"

text \<open>The final segment of a path: what follows its last \<^verbatim>\<open>/\<close> or \<^verbatim>\<open>\\<close>.\<close>

definition is_sep :: "char \<Rightarrow> bool" where
  "is_sep c = (c = bslash \<or> c = CHR ''/'')"

definition final_segment :: "string \<Rightarrow> string" where
  "final_segment s = rev (takeWhile (\<lambda>c. \<not> is_sep c) (rev s))"

text \<open>The way of matching that backtracking reaches first.\<close>

definition first_way :: "regex \<Rightarrow> string \<Rightarrow> caps \<Rightarrow> (string \<times> caps) option" where
  "first_way r s c = (case rmatch r s c of [] \<Rightarrow> None | x # _ \<Rightarrow> Some x)"

text \<open>A string occurs in a line; a non-empty run of decimal digits.\<close>

definition occurs_in :: "string \<Rightarrow> string \<Rightarrow> bool" where
  "occurs_in x l = (\<exists>pre post. l = pre @ x @ post)"

definition digits :: "string \<Rightarrow> bool" where
  "digits ds = (ds \<noteq> [] \<and> list_all is_digit ds)"

definition no_terminator :: "string \<Rightarrow> bool" where
  "no_terminator s = list_all (\<lambda>c. \<not> is_line_terminator c) s"

text \<open>
  A candidate path serves a frame when it can be read and the frame's line is one of the
  lines of its content.
\<close>

definition in_range :: "frame \<Rightarrow> string \<Rightarrow> bool" where
  "in_range fr text = (1 \<le> line fr \<and> line fr \<le> length (split_nl text))"

definition usable :: "env \<Rightarrow> frame \<Rightarrow> string \<Rightarrow> bool" where
  "usable e fr p = (case readFile e p of None \<Rightarrow> False | Some text \<Rightarrow> in_range fr text)"

text \<open>A line declares a name when one of the declaration recognizers matches it.\<close>

definition declares :: "string \<Rightarrow> bool" where
  "declares l = (first_declaration declaration_patterns (trim l) \<noteq> None)"

text \<open>The name that the first matching declaration recognizer captures from a line.\<close>

definition declared_name :: "string \<Rightarrow> string option" where
  "declared_name l =
     (case first_declaration declaration_patterns (trim l) of None \<Rightarrow> None | Some m \<Rightarrow> at m 1)"

text \<open>
  Small file systems for the examples: paths are joined with \<^verbatim>\<open>/\<close>, and the files are given
  as a list of paths with their contents.
\<close>

definition slash_join :: "string list \<Rightarrow> string" where
  "slash_join segs = (case segs of [] \<Rightarrow> ''.'' | s # ss \<Rightarrow> foldl (\<lambda>acc x. acc @ ''/'' @ x) s ss)"

definition files_env :: "(string \<times> string) list \<Rightarrow> env" where
  "files_env fs =
     \<lparr>readFile = map_of fs, path_join = slash_join, glob = (\<lambda>root. []),
      ignores = (\<lambda>rules f. False)\<rparr>"

definition unlines :: "string list \<Rightarrow> string" where
  "unlines ls = (case ls of [] \<Rightarrow> [] | l # rest \<Rightarrow> foldl (\<lambda>acc x. acc @ [newline] @ x) l rest)"

text \<open>
  Resolution as the specification words it: the first candidate that exists and can be
  read.
\<close>

definition first_readable :: "env \<Rightarrow> frame \<Rightarrow> string \<Rightarrow> string option" where
  "first_readable e fr codebasePath =
     find (\<lambda>p. readFile e p \<noteq> None) (possiblePaths e fr codebasePath)"

text \<open>Example inputs.\<close>

definition one_line_env :: env where
  "one_line_env = files_env [(''/r/a.rb'', ''x'')]"

definition frame_a5 :: frame where
  "frame_a5 = \<lparr>filename = ''a.rb'', func = ''f'', line = 5, column = None\<rparr>"

definition two_roots_env :: env where
  "two_roots_env =
     files_env [(''/r/job.rb'', ''x''), (''/r/src/job.rb'', unlines [''a'', ''b'', ''c''])]"

definition frame_job3 :: frame where
  "frame_job3 = \<lparr>filename = ''job.rb'', func = ''run'', line = 3, column = None\<rparr>"

definition mixed_env :: env where
  "mixed_env = files_env [(''/r/a.rb'', ''x''), (''/r/app/b.rb'', ''def g'')]"

definition two_frame_trace :: string where
  "two_frame_trace =
     unlines [''from a.rb:5:in `f'' @ [squote], ''from lib/b.rb:1:in `g'' @ [squote]]"

definition job_trace :: string where
  "job_trace = ''from job.rb:3:in `run'' @ [squote]"

definition many_files_env :: env where
  "many_files_env =
     \<lparr>readFile = (\<lambda>p. if p = ''/r/.gitignore'' then Some ''skip'' else Some ''x''),
      path_join = slash_join,
      glob = (\<lambda>root. map (\<lambda>n. replicate n CHR ''a'' @ ''.rb'') [1..<121]),
      ignores = (\<lambda>rules f. rules = ''skip'' \<and> length f mod 4 = 0)\<rparr>"

definition no_rules_env :: env where
  "no_rules_env =
     \<lparr>readFile = (\<lambda>p. if p = ''/r/.gitignore'' then None else Some ''x''),
      path_join = slash_join,
      glob = (\<lambda>root. [''a.rb'', ''b.rb'']),
      ignores = (\<lambda>rules f. True)\<rparr>"

section \<open>Lines and context windows\<close>

lemma split_nl_ne: "split_nl s \<noteq> []"
  by (induction s) (auto split: list.splits)

lemma length_split_nl: "length (split_nl s) = Suc (count_list s newline)"
  by (induction s) (auto split: list.splits simp: split_nl_ne)

lemma hd_upto: "i \<le> j \<Longrightarrow> hd [i..j] = i"
  by (simp add: upto_rec1)

lemma last_upto: "i \<le> j \<Longrightarrow> last [i..j] = j"
  by (simp add: upto_rec2)

lemma getContextLines_index:
  assumes "cl \<in> set (getContextLines lines targetLine contextSize)"
  shows "0 \<le> lineNumber cl - 1 \<and> lineNumber cl - 1 < int (length lines)
         \<and> content cl = lines ! nat (lineNumber cl - 1)"
  using assms by (auto simp: getContextLines_def Let_def)

text \<open>
  C3.  For a file content, a radius \<open>r \<ge> 0\<close> and a 1-based target line \<open>t\<close> within the file,
  the context window holds exactly the lines with the 0-based indices from
  \<open>max 0 ((t - 1) - r)\<close> up to, and not including, \<open>min lineCount ((t - 1) + r + 1)\<close>, each an
  index of the file.  The window is not empty, its first and last line numbers satisfy
  \<open>1 \<le> first \<le> t \<le> last \<le> lineCount\<close>, and when the target is at least \<open>r\<close> lines away from
  both ends of the file its length is \<open>min lineCount (2 * r + 1)\<close>.
\<close>

theorem context_window:
  fixes t r :: int
  assumes "1 \<le> t" and "t \<le> int (length (split_nl text))" and "0 \<le> r"
  shows "let lines = split_nl text;
             n = int (length lines);
             w = getContextLines lines (t - 1) r
         in map (\<lambda>cl. (lineNumber cl - 1, content cl)) w
              = map (\<lambda>i. (i, lines ! nat i)) [max 0 ((t - 1) - r)..min n ((t - 1) + r + 1) - 1]
            \<and> (\<forall>cl \<in> set w. 0 \<le> lineNumber cl - 1 \<and> lineNumber cl - 1 < n)
            \<and> w \<noteq> []
            \<and> 1 \<le> lineNumber (hd w) \<and> lineNumber (hd w) \<le> t
            \<and> t \<le> lineNumber (last w) \<and> lineNumber (last w) \<le> n
            \<and> (r < t \<and> t + r \<le> n \<longrightarrow> int (length w) = min n (2 * r + 1))"
proof -
  define lines where "lines = split_nl text"
  define n where "n = int (length lines)"
  define a where "a = max 0 ((t - 1) - r)"
  define b where "b = min n ((t - 1) + r + 1) - 1"
  define w where "w = getContextLines lines (t - 1) r"
  have w: "w = map (\<lambda>i. \<lparr>lineNumber = i + 1, content = lines ! nat i,
                     context_role = (if i < t - 1 then Before
                                     else if i = t - 1 then Target else After)\<rparr>) [a..b]"
    by (simp add: w_def getContextLines_def Let_def a_def b_def n_def)
  have ab: "a \<le> b" "0 \<le> a" "a \<le> t - 1" "t - 1 \<le> b" "b < n"
    using assms by (auto simp: a_def b_def n_def lines_def)
  have 1: "map (\<lambda>cl. (lineNumber cl - 1, content cl)) w = map (\<lambda>i. (i, lines ! nat i)) [a..b]"
    by (simp add: w)
  have 2: "\<forall>cl \<in> set w. 0 \<le> lineNumber cl - 1 \<and> lineNumber cl - 1 < n"
    using ab by (auto simp: w)
  have 3: "w \<noteq> []" using ab by (simp add: w)
  have 4: "lineNumber (hd w) = a + 1"
    using ab by (simp add: w hd_map hd_upto)
  have 5: "lineNumber (last w) = b + 1"
    using ab by (simp add: w last_map last_upto)
  have 6: "r < t \<and> t + r \<le> n \<longrightarrow> int (length w) = min n (2 * r + 1)"
    using assms by (auto simp: w a_def b_def)
  show ?thesis
    using 1 2 3 4 5 6 ab assms
    unfolding Let_def w_def a_def b_def n_def lines_def
    by auto
qed

theorem context_window_witness:
  "let text = unlines [''a'', ''b'', ''c'', ''d'', ''e'', ''f''];
       lines = split_nl text;
       w = getContextLines lines (3 - 1) 1
   in (1::int) \<le> 3 \<and> 3 \<le> int (length lines) \<and> (0::int) \<le> 1
      \<and> map (\<lambda>cl. (lineNumber cl - 1, content cl)) w = [(1, ''b''), (2, ''c''), (3, ''d'')]
      \<and> lineNumber (hd w) = 2 \<and> lineNumber (last w) = 4
      \<and> int (length w) = min 6 (2 * 1 + 1)"
  using context_window[of 3 "unlines [''a'', ''b'', ''c'', ''d'', ''e'', ''f'']" 1]
  by (simp add: Let_def newline_def unlines_def getContextLines_def upto_rec1)

lemma split_nl_snoc_newline: "split_nl (s @ [newline]) = split_nl s @ [[]]"
  by (induction s) (auto split: list.splits simp: split_nl_ne)

lemma scan_back_total: "i < length lines \<Longrightarrow> \<exists>r. scan_back lines i = Inr r"
  by (induction i) (auto split: option.splits)

lemma findContainingFunction_total:
  "targetLine < int (length lines) \<Longrightarrow> \<exists>r. findContainingFunction lines targetLine = Inr r"
  using scan_back_total[of "nat targetLine" lines] by (auto simp: findContainingFunction_def)

lemma try_paths_hit:
  assumes "readFile e p = Some text" and "in_range fr text"
  shows "\<exists>fn. findContainingFunction (split_nl text) (int (line fr) - 1) = Inr fn \<and>
          try_paths e fr (p # rest) =
            Context (filename fr) (line fr) (getContextLines (split_nl text) (int (line fr) - 1) 3) fn"
proof -
  from assms(2) have r: "int (line fr) - 1 \<ge> 0" "int (line fr) - 1 < int (length (split_nl text))"
    by (auto simp: in_range_def)
  from findContainingFunction_total[OF r(2)] obtain fn where
    "findContainingFunction (split_nl text) (int (line fr) - 1) = Inr fn" ..
  with assms(1) r show ?thesis by (simp add: Let_def)
qed

lemma try_paths_skip:
  assumes "\<not> usable e fr p"
  shows "try_paths e fr (p # rest) = try_paths e fr rest"
  using assms by (auto simp: usable_def in_range_def Let_def split: option.splits)

text \<open>
  C10.  The line count of an analyzed file is the number of line feeds in its content plus
  one.  A content that ends with a line feed therefore has one line more than the same
  content without it, the additional last line being empty; a frame that points at that
  last line is in range, and its context window ends with the empty target line.  The empty
  content has line count 1.
\<close>

theorem lineCount_newlines:
  "(readFile e p = Some text \<longrightarrow>
      (\<exists>a. analyzeFile e p = Some a \<and> lineCount a = count_list text newline + 1))
   \<and> length (split_nl (s @ [newline])) = length (split_nl s) + 1
   \<and> last (split_nl (s @ [newline])) = []
   \<and> (readFile e (path_join e [root, filename fr]) = Some (s @ [newline])
        \<and> line fr = length (split_nl (s @ [newline]))
      \<longrightarrow> (\<exists>w fn. analyzeFileForStackFrame e fr root = Context (filename fr) (line fr) w fn
             \<and> last w = \<lparr>lineNumber = int (line fr), content = [], context_role = Target\<rparr>))
   \<and> (readFile e p = Some [] \<longrightarrow> (\<exists>a. analyzeFile e p = Some a \<and> lineCount a = 1))"
proof -
  have 1: "readFile e p = Some tx \<longrightarrow>
      (\<exists>a. analyzeFile e p = Some a \<and> lineCount a = count_list tx newline + 1)" for tx
    by (simp add: analyzeFile_def length_split_nl)
  have 2: "length (split_nl (s @ [newline])) = length (split_nl s) + 1"
    by (simp add: split_nl_snoc_newline)
  have 3: "last (split_nl (s @ [newline])) = []"
    by (simp add: split_nl_snoc_newline)
  have 4: "\<exists>w fn. analyzeFileForStackFrame e fr root = Context (filename fr) (line fr) w fn
             \<and> last w = \<lparr>lineNumber = int (line fr), content = [], context_role = Target\<rparr>"
    if rd: "readFile e (path_join e [root, filename fr]) = Some (s @ [newline])"
      and ln: "line fr = length (split_nl (s @ [newline]))"
  proof -
    let ?lines = "split_nl (s @ [newline])"
    have ir: "in_range fr (s @ [newline])"
      using ln by (simp add: in_range_def split_nl_snoc_newline)
    from try_paths_hit[OF rd ir] obtain fn where
      t: "analyzeFileForStackFrame e fr root =
          Context (filename fr) (line fr) (getContextLines ?lines (int (line fr) - 1) 3) fn"
      by (auto simp: analyzeFileForStackFrame_def possiblePaths_def)
    have n: "int (length ?lines) = int (line fr)" "1 \<le> line fr"
      using ln by (simp_all add: split_nl_snoc_newline)
    have "getContextLines ?lines (int (line fr) - 1) 3 \<noteq> []"
      using n by (simp add: getContextLines_def Let_def)
    moreover have "?lines ! (line fr - 1) = []"
      using ln by (simp add: split_nl_snoc_newline nth_append)
    ultimately have "last (getContextLines ?lines (int (line fr) - 1) 3)
         = \<lparr>lineNumber = int (line fr), content = [], context_role = Target\<rparr>"
      using n by (simp add: getContextLines_def Let_def last_map last_upto nat_diff_distrib)
    with t show ?thesis by blast
  qed
  from 1[of "text"] 1[of "[]"] 2 3 4 show ?thesis by simp
qed

theorem lineCount_newlines_witness:
  "let e = files_env [(''/r/a.rb'', ''x'' @ [newline]), (''/r/empty.rb'', [])];
       fr = \<lparr>filename = ''a.rb'', func = ''f'', line = 2, column = None\<rparr>
   in readFile e ''/r/a.rb'' = Some (''x'' @ [newline])
      \<and> readFile e (path_join e [''/r'', filename fr]) = Some (''x'' @ [newline])
      \<and> line fr = length (split_nl (''x'' @ [newline]))
      \<and> readFile e ''/r/empty.rb'' = Some []
      \<and> (\<exists>a. analyzeFile e ''/r/a.rb'' = Some a \<and> lineCount a = 2)
      \<and> (\<exists>a. analyzeFile e ''/r/empty.rb'' = Some a \<and> lineCount a = 1)
      \<and> (\<exists>w fn. analyzeFileForStackFrame e fr ''/r'' = Context ''a.rb'' 2 w fn
             \<and> last w = \<lparr>lineNumber = 2, content = [], context_role = Target\<rparr>)"
  using lineCount_newlines[of "files_env [(''/r/a.rb'', ''x'' @ [newline]), (''/r/empty.rb'', [])]"
      "''/r/a.rb''" "''x'' @ [newline]" "''x''" "''/r''"
      "\<lparr>filename = ''a.rb'', func = ''f'', line = 2, column = None\<rparr>"]
    lineCount_newlines[of "files_env [(''/r/a.rb'', ''x'' @ [newline]), (''/r/empty.rb'', [])]"
      "''/r/empty.rb''" "[]" "''x''" "''/r''"
      "\<lparr>filename = ''a.rb'', func = ''f'', line = 2, column = None\<rparr>"]
  by (simp add: Let_def files_env_def slash_join_def newline_def eval_nat_numeral)

section \<open>Resolution of a frame\<close>

lemma try_paths_find:
  "case find (usable e fr) ps of
     None \<Rightarrow> try_paths e fr ps = FileNotFound (filename fr)
   | Some p \<Rightarrow> \<exists>tx fn. readFile e p = Some tx \<and> in_range fr tx \<and>
        try_paths e fr ps =
          Context (filename fr) (line fr) (getContextLines (split_nl tx) (int (line fr) - 1) 3) fn"
proof (induction ps)
  case Nil
  then show ?case by simp
next
  case (Cons p ps)
  show ?case
  proof (cases "usable e fr p")
    case True
    then obtain tx where tx: "readFile e p = Some tx" "in_range fr tx"
      by (auto simp: usable_def split: option.splits)
    from try_paths_hit[OF this, of ps] tx True show ?thesis
      by (auto simp del: try_paths.simps)
  next
    case False
    then have f: "find (usable e fr) (p # ps) = find (usable e fr) ps" by simp
    show ?thesis unfolding f try_paths_skip[OF False, of ps] by (rule Cons)
  qed
qed

text \<open>
  C9.  In the loop over the candidates a file that can be read is passed over, and the next
  candidate is tried, whenever the frame's line is outside \<open>[1, lineCount]\<close> of its content.
  Hence a report with a context window always comes from a candidate whose content has the
  frame's line, and a frame can be served by \<open>root/src/name\<close> although \<open>root/name\<close> exists:
  the example has a one-line \<open>/r/job.rb\<close>, a three-line \<open>/r/src/job.rb\<close> and a frame at
  line 3.
\<close>

theorem resolution_skips_out_of_range:
  "(readFile e p = Some tx \<and> \<not> (1 \<le> line fr \<and> line fr \<le> length (split_nl tx))
      \<longrightarrow> try_paths e fr (p # rest) = try_paths e fr rest)
   \<and> (analyzeFileForStackFrame e fr root = Context f l w fn
      \<longrightarrow> (\<exists>q\<in>set (possiblePaths e fr root). \<exists>tx'. readFile e q = Some tx'
             \<and> 1 \<le> line fr \<and> line fr \<le> length (split_nl tx')
             \<and> w = getContextLines (split_nl tx') (int (line fr) - 1) 3))
   \<and> readFile two_roots_env (path_join two_roots_env [''/r'', filename frame_job3]) = Some ''x''
   \<and> analyzeFileForStackFrame two_roots_env frame_job3 ''/r''
       = Context ''job.rb'' 3 (getContextLines [''a'', ''b'', ''c''] 2 3) None"
proof -
  have 1: "readFile e p = Some tx \<and> \<not> (1 \<le> line fr \<and> line fr \<le> length (split_nl tx))
      \<longrightarrow> try_paths e fr (p # rest) = try_paths e fr rest"
    using try_paths_skip[of e fr p rest] by (auto simp: usable_def in_range_def)
  have 2: "\<exists>q\<in>set (possiblePaths e fr root). \<exists>tx'. readFile e q = Some tx'
             \<and> 1 \<le> line fr \<and> line fr \<le> length (split_nl tx')
             \<and> w = getContextLines (split_nl tx') (int (line fr) - 1) 3"
    if c: "analyzeFileForStackFrame e fr root = Context f l w fn"
  proof (cases "find (usable e fr) (possiblePaths e fr root)")
    case None
    with try_paths_find[of e fr "possiblePaths e fr root"] c show ?thesis
      by (simp add: analyzeFileForStackFrame_def)
  next
    case (Some q)
    then have "q \<in> set (possiblePaths e fr root)"
      by (auto simp: find_Some_iff)
    with Some try_paths_find[of e fr "possiblePaths e fr root"] c show ?thesis
      by (auto simp: analyzeFileForStackFrame_def in_range_def)
  qed
  have 3: "readFile two_roots_env (path_join two_roots_env [''/r'', filename frame_job3]) = Some ''x''"
    by (simp add: two_roots_env_def files_env_def frame_job3_def slash_join_def)
  have 4: "analyzeFileForStackFrame two_roots_env frame_job3 ''/r''
       = Context ''job.rb'' 3 (getContextLines [''a'', ''b'', ''c''] 2 3) None"
    by code_simp
  from 1 2 3 4 show ?thesis by blast
qed


theorem resolution_skips_out_of_range_witness:
  "readFile two_roots_env ''/r/job.rb'' = Some ''x''
   \<and> \<not> (1 \<le> line frame_job3 \<and> line frame_job3 \<le> length (split_nl ''x''))
   \<and> try_paths two_roots_env frame_job3 [''/r/job.rb'', ''/r/src/job.rb'']
       = try_paths two_roots_env frame_job3 [''/r/src/job.rb'']
   \<and> analyzeFileForStackFrame two_roots_env frame_job3 ''/r''
       = Context ''job.rb'' 3 (getContextLines [''a'', ''b'', ''c''] 2 3) None
   \<and> (\<exists>q\<in>set (possiblePaths two_roots_env frame_job3 ''/r''). \<exists>tx'.
         readFile two_roots_env q = Some tx'
         \<and> 1 \<le> line frame_job3 \<and> line frame_job3 \<le> length (split_nl tx')
         \<and> getContextLines [''a'', ''b'', ''c''] 2 3
             = getContextLines (split_nl tx') (int (line frame_job3) - 1) 3)"
proof -
  have h: "readFile two_roots_env ''/r/job.rb'' = Some ''x''
     \<and> \<not> (1 \<le> line frame_job3 \<and> line frame_job3 \<le> length (split_nl ''x''))"
    by (simp add: two_roots_env_def files_env_def frame_job3_def)
  from h resolution_skips_out_of_range[of two_roots_env "''/r/job.rb''" "''x''" frame_job3
      "[''/r/src/job.rb'']" "''/r''" "''job.rb''" 3 "getContextLines [''a'', ''b'', ''c''] 2 3" None]
  show ?thesis by blast
qed

text \<open>
  C2, as amended.  Resolution tries the candidates \<open>root/name\<close>, \<open>root/src/name\<close> and
  \<open>root/app/name\<close> in this order and takes the first one that can be read and whose content
  has the frame's line among its lines; the report shows the context window from that
  file.  When no candidate is of this kind the frame is reported as ``file not found'',
  which is a report and not an error: every one of the first five frames gets its own
  report.
\<close>

theorem resolution_order:
  "possiblePaths e fr root =
     [path_join e [root, filename fr], path_join e [root, ''src'', filename fr],
      path_join e [root, ''app'', filename fr]]
   \<and> (case find (\<lambda>p. case readFile e p of None \<Rightarrow> False
                       | Some tx \<Rightarrow> 1 \<le> line fr \<and> line fr \<le> length (split_nl tx))
              (possiblePaths e fr root) of
         None \<Rightarrow> analyzeFileForStackFrame e fr root = FileNotFound (filename fr)
       | Some p \<Rightarrow> \<exists>tx fn. readFile e p = Some tx \<and>
            analyzeFileForStackFrame e fr root =
              Context (filename fr) (line fr)
                (getContextLines (split_nl tx) (int (line fr) - 1) 3) fn)
   \<and> (parseStackTrace stackTrace = Inr frames \<and> frames \<noteq> [] \<longrightarrow>
        (\<exists>entries. analyzeStackTrace e stackTrace root =
           Inr (Analysis entries (map (\<lambda>fr. analyzeFileForStackFrame e fr root) (take 5 frames)))))"
proof -
  have u: "(\<lambda>p. case readFile e p of None \<Rightarrow> False
                       | Some tx \<Rightarrow> 1 \<le> line fr \<and> line fr \<le> length (split_nl tx)) = usable e fr"
    by (rule ext) (simp add: usable_def in_range_def split: option.splits)
  have 2: "case find (usable e fr) (possiblePaths e fr root) of
         None \<Rightarrow> analyzeFileForStackFrame e fr root = FileNotFound (filename fr)
       | Some p \<Rightarrow> \<exists>tx fn. readFile e p = Some tx \<and>
            analyzeFileForStackFrame e fr root =
              Context (filename fr) (line fr)
                (getContextLines (split_nl tx) (int (line fr) - 1) 3) fn"
    using try_paths_find[of e fr "possiblePaths e fr root"]
    by (auto simp: analyzeFileForStackFrame_def split: option.splits)
  have 3: "parseStackTrace stackTrace = Inr frames \<and> frames \<noteq> [] \<longrightarrow>
        (\<exists>entries. analyzeStackTrace e stackTrace root =
           Inr (Analysis entries (map (\<lambda>fr. analyzeFileForStackFrame e fr root) (take 5 frames))))"
    by (simp add: analyzeStackTrace_def)
  show ?thesis
    unfolding u using 2 3 by (simp add: possiblePaths_def)
qed

theorem resolution_order_counterexample:
  "first_readable two_roots_env frame_job3 ''/r'' = Some ''/r/job.rb''
   \<and> readFile two_roots_env ''/r/src/job.rb'' = Some (unlines [''a'', ''b'', ''c''])
   \<and> analyzeFileForStackFrame two_roots_env frame_job3 ''/r''
       = Context ''job.rb'' 3
           (getContextLines (split_nl (unlines [''a'', ''b'', ''c''])) (int (line frame_job3) - 1) 3)
           None
   \<and> readFile two_roots_env ''/r/job.rb'' = Some ''x''
   \<and> map content
        (getContextLines (split_nl (unlines [''a'', ''b'', ''c''])) (int (line frame_job3) - 1) 3)
       = [''a'', ''b'', ''c'']"
  by code_simp

theorem resolution_order_witness:
  "parseStackTrace job_trace = Inr [frame_job3] \<and> [frame_job3] \<noteq> []
   \<and> find (\<lambda>p. case readFile two_roots_env p of None \<Rightarrow> False
                  | Some tx \<Rightarrow> 1 \<le> line frame_job3 \<and> line frame_job3 \<le> length (split_nl tx))
         (possiblePaths two_roots_env frame_job3 ''/r'') = Some ''/r/src/job.rb''
   \<and> find (\<lambda>p. case readFile one_line_env p of None \<Rightarrow> False
                  | Some tx \<Rightarrow> 1 \<le> line frame_a5 \<and> line frame_a5 \<le> length (split_nl tx))
         (possiblePaths one_line_env frame_a5 ''/r'') = None
   \<and> analyzeFileForStackFrame one_line_env frame_a5 ''/r'' = FileNotFound ''a.rb''
   \<and> (\<exists>tx fn. readFile two_roots_env ''/r/src/job.rb'' = Some tx \<and>
         analyzeFileForStackFrame two_roots_env frame_job3 ''/r'' =
           Context ''job.rb'' 3 (getContextLines (split_nl tx) 2 3) fn)
   \<and> (\<exists>entries. analyzeStackTrace two_roots_env job_trace ''/r'' =
         Inr (Analysis entries [analyzeFileForStackFrame two_roots_env frame_job3 ''/r'']))"
proof -
  have p: "parseStackTrace job_trace = Inr [frame_job3]" by code_simp
  have f1: "find (\<lambda>p. case readFile two_roots_env p of None \<Rightarrow> False
                  | Some tx \<Rightarrow> 1 \<le> line frame_job3 \<and> line frame_job3 \<le> length (split_nl tx))
         (possiblePaths two_roots_env frame_job3 ''/r'') = Some ''/r/src/job.rb''"
    by code_simp
  have f2: "find (\<lambda>p. case readFile one_line_env p of None \<Rightarrow> False
                  | Some tx \<Rightarrow> 1 \<le> line frame_a5 \<and> line frame_a5 \<le> length (split_nl tx))
         (possiblePaths one_line_env frame_a5 ''/r'') = None"
    by code_simp
  have n: "filename frame_a5 = ''a.rb''" "filename frame_job3 = ''job.rb''" "line frame_job3 = 3"
    by (simp_all add: frame_a5_def frame_job3_def)
  from resolution_order[of two_roots_env frame_job3 "''/r''" job_trace "[frame_job3]"]
    resolution_order[of one_line_env frame_a5 "''/r''" job_trace "[frame_job3]"]
    p f1 f2 n
  show ?thesis by simp
qed


text \<open>
  C1, as amended.  When the target line of a frame is outside \<open>[1, lineCount]\<close> of every
  candidate file that can be read, no context window is produced for it and its report is
  the ``file not found'' sentence, the report of a frame whose file is missing; the code
  has no report of its own for a line out of range.  Each of the first five frames is
  reported on its own, whatever was found for the others.
\<close>

theorem out_of_range_is_not_found:
  "((\<forall>p\<in>set (possiblePaths e fr root). \<forall>tx. readFile e p = Some tx \<longrightarrow>
        \<not> (1 \<le> line fr \<and> line fr \<le> length (split_nl tx)))
      \<longrightarrow> analyzeFileForStackFrame e fr root = FileNotFound (filename fr))
   \<and> (parseStackTrace stackTrace = Inr frames \<and> frames \<noteq> [] \<longrightarrow>
        (\<exists>entries reports. analyzeStackTrace e stackTrace root = Inr (Analysis entries reports)
           \<and> length reports = min 5 (length frames)
           \<and> (\<forall>i<length reports. reports ! i = analyzeFileForStackFrame e (frames ! i) root)))"
proof -
  have 1: "analyzeFileForStackFrame e fr root = FileNotFound (filename fr)"
    if h: "\<forall>p\<in>set (possiblePaths e fr root). \<forall>tx. readFile e p = Some tx \<longrightarrow>
        \<not> (1 \<le> line fr \<and> line fr \<le> length (split_nl tx))"
  proof -
    from h have "\<forall>p\<in>set (possiblePaths e fr root). \<not> usable e fr p"
      by (auto simp: usable_def in_range_def split: option.splits)
    then have "find (usable e fr) (possiblePaths e fr root) = None"
      by (simp add: find_None_iff)
    with try_paths_find[of e fr "possiblePaths e fr root"] show ?thesis
      by (simp add: analyzeFileForStackFrame_def)
  qed
  have 2: "\<exists>entries reports. analyzeStackTrace e stackTrace root = Inr (Analysis entries reports)
           \<and> length reports = min 5 (length frames)
           \<and> (\<forall>i<length reports. reports ! i = analyzeFileForStackFrame e (frames ! i) root)"
    if "parseStackTrace stackTrace = Inr frames" "frames \<noteq> []"
    using that by (simp add: analyzeStackTrace_def min.commute)
  from 1 2 show ?thesis by blast
qed

theorem out_of_range_is_not_found_witness:
  "line frame_a5 = 5 \<and> length (split_nl ''x'') = 1
   \<and> readFile mixed_env ''/r/a.rb'' = Some ''x''
   \<and> (\<exists>fr. parseStackTrace two_frame_trace = Inr [frame_a5, fr] \<and> [frame_a5, fr] \<noteq> []
        \<and> (\<exists>entries w. analyzeStackTrace mixed_env two_frame_trace ''/r''
              = Inr (Analysis entries [FileNotFound ''a.rb'', Context ''b.rb'' 1 w (Some ''g'')])))"
proof -
  let ?fr = "\<lparr>filename = ''b.rb'', func = ''g'', line = 1, column = None\<rparr>"
  have h: "\<forall>p\<in>set (possiblePaths mixed_env frame_a5 ''/r''). \<forall>tx. readFile mixed_env p = Some tx \<longrightarrow>
        \<not> (1 \<le> line frame_a5 \<and> line frame_a5 \<le> length (split_nl tx))"
    by (simp add: possiblePaths_def mixed_env_def files_env_def slash_join_def frame_a5_def)
  have r: "readFile mixed_env ''/r/a.rb'' = Some ''x''"
    by (simp add: mixed_env_def files_env_def)
  have p: "parseStackTrace two_frame_trace = Inr [frame_a5, ?fr]" by code_simp
  have b: "analyzeFileForStackFrame mixed_env ?fr ''/r''
      = Context ''b.rb'' 1 (getContextLines [''def g''] 0 3) (Some ''g'')" by code_simp
  have n: "filename frame_a5 = ''a.rb''" by (simp add: frame_a5_def)
  from out_of_range_is_not_found[of mixed_env frame_a5 "''/r''" two_frame_trace "[frame_a5, ?fr]"] h p
  obtain entries reports where
    a: "analyzeFileForStackFrame mixed_env frame_a5 ''/r'' = FileNotFound (filename frame_a5)"
    and s: "analyzeStackTrace mixed_env two_frame_trace ''/r'' = Inr (Analysis entries reports)"
    and l: "length reports = 2"
    and i: "\<forall>i<length reports. reports ! i = analyzeFileForStackFrame mixed_env ([frame_a5, ?fr] ! i) ''/r''"
    by auto
  from l obtain x y where xy: "reports = [x, y]"
    by (cases reports; cases "tl reports") auto
  with i have "x = analyzeFileForStackFrame mixed_env frame_a5 ''/r''"
    "y = analyzeFileForStackFrame mixed_env ?fr ''/r''" by auto
  with a b n xy s have "analyzeStackTrace mixed_env two_frame_trace ''/r''
      = Inr (Analysis entries [FileNotFound ''a.rb'', Context ''b.rb'' 1 (getContextLines [''def g''] 0 3) (Some ''g'')])"
    by simp
  moreover have "line frame_a5 = 5" "length (split_nl ''x'') = 1"
    by (simp_all add: frame_a5_def newline_def)
  ultimately show ?thesis using r p by blast
qed

theorem out_of_range_counterexample:
  "readFile one_line_env (path_join one_line_env [''/r'', filename frame_a5]) = Some ''x''
   \<and> length (split_nl ''x'') = 1 \<and> line frame_a5 = 5
   \<and> analyzeFileForStackFrame one_line_env frame_a5 ''/r'' = FileNotFound ''a.rb''
   \<and> analyzeFileForStackFrame (files_env []) frame_a5 ''/r'' = FileNotFound ''a.rb''"
  by code_simp

section \<open>Discovery scan\<close>

text \<open>
  C8.  A discovery scan returns at most 50 analyses.  They are the analyses of the readable
  files among the first 50 files, in the order of enumeration, that are left after the rules
  of the ignore file of the root have been applied; so every returned analysis is of an
  enumerated file that the rules do not exclude.  Without an ignore file nothing is excluded
  and the scan is no error.
\<close>

theorem discovery_cap:
  "let rules = readFile e (path_join e [root, ''.gitignore'']);
       kept = (case rules of None \<Rightarrow> glob e root
               | Some r \<Rightarrow> filter (\<lambda>f. \<not> ignores e r f) (glob e root));
       analyses = fst (analyzeCodebase e a root)
   in length analyses \<le> 50
      \<and> analyses = List.map_filter (\<lambda>f. analyzeFile e (path_join e [root, f])) (take 50 kept)
      \<and> (\<forall>x\<in>set analyses. \<exists>f\<in>set (take 50 kept). path x = path_join e [root, f]
            \<and> f \<in> set (glob e root) \<and> (\<forall>r. rules = Some r \<longrightarrow> \<not> ignores e r f))
      \<and> (rules = None \<longrightarrow>
            analyses = List.map_filter (\<lambda>f. analyzeFile e (path_join e [root, f]))
                         (take 50 (glob e root)))"
proof -
  define rules where "rules = readFile e (path_join e [root, ''.gitignore''])"
  define kept where "kept = (case rules of None \<Rightarrow> glob e root
               | Some r \<Rightarrow> filter (\<lambda>f. \<not> ignores e r f) (glob e root))"
  define analyses where "analyses = fst (analyzeCodebase e a root)"
  have an: "analyses = List.map_filter (\<lambda>f. analyzeFile e (path_join e [root, f])) (take 50 kept)"
    by (simp add: analyses_def analyzeCodebase_def Let_def loadGitignore_def filterIgnoredFiles_def
        kept_def rules_def)
  have "length analyses \<le> length (take 50 kept)"
    unfolding an map_filter_def by (simp del: length_take) 
  then have 1: "length analyses \<le> 50" by simp
  have k: "f \<in> set (glob e root) \<and> (\<forall>r. rules = Some r \<longrightarrow> \<not> ignores e r f)"
    if "f \<in> set (take 50 kept)" for f
  proof -
    from that have "f \<in> set kept" by (rule in_set_takeD)
    then show ?thesis by (auto simp: kept_def split: option.splits)
  qed
  have 3: "\<exists>f\<in>set (take 50 kept). path x = path_join e [root, f]
            \<and> f \<in> set (glob e root) \<and> (\<forall>r. rules = Some r \<longrightarrow> \<not> ignores e r f)"
    if "x \<in> set analyses" for x
  proof -
    from that obtain f where f: "f \<in> set (take 50 kept)"
      "analyzeFile e (path_join e [root, f]) = Some x"
      unfolding an map_filter_def by auto
    then have "path x = path_join e [root, f]"
      by (auto simp: analyzeFile_def split: option.splits)
    with f k[OF f(1)] show ?thesis by blast
  qed
  have 4: "rules = None \<longrightarrow>
            analyses = List.map_filter (\<lambda>f. analyzeFile e (path_join e [root, f]))
                         (take 50 (glob e root))"
    by (simp add: an kept_def)
  from 1 an 3 4 show ?thesis
    unfolding Let_def rules_def[symmetric] kept_def[symmetric] analyses_def[symmetric]
    by blast
qed


theorem discovery_cap_witness:
  "length (glob many_files_env ''/r'') = 120
   \<and> length (filter (ignores many_files_env ''skip'') (glob many_files_env ''/r'')) = 30
   \<and> readFile many_files_env (path_join many_files_env [''/r'', ''.gitignore'']) = Some ''skip''
   \<and> length (fst (analyzeCodebase many_files_env \<lparr>gitignorePatterns = None\<rparr> ''/r'')) = 50
   \<and> (\<exists>f\<in>set (glob many_files_env ''/r'').
         path (hd (fst (analyzeCodebase many_files_env \<lparr>gitignorePatterns = None\<rparr> ''/r'')))
           = path_join many_files_env [''/r'', f]
         \<and> \<not> ignores many_files_env ''skip'' f)
   \<and> readFile no_rules_env (path_join no_rules_env [''/r'', ''.gitignore'']) = None
   \<and> fst (analyzeCodebase no_rules_env \<lparr>gitignorePatterns = None\<rparr> ''/r'')
       = List.map_filter (\<lambda>f. analyzeFile no_rules_env (path_join no_rules_env [''/r'', f]))
           (take 50 (glob no_rules_env ''/r''))
   \<and> map path (fst (analyzeCodebase no_rules_env \<lparr>gitignorePatterns = None\<rparr> ''/r''))
       = [''/r/a.rb'', ''/r/b.rb'']"
proof -
  have g: "length (glob many_files_env ''/r'') = 120"
    by (simp add: many_files_env_def)
  have i: "length (filter (ignores many_files_env ''skip'') (glob many_files_env ''/r'')) = 30"
    by code_simp
  have r: "readFile many_files_env (path_join many_files_env [''/r'', ''.gitignore'']) = Some ''skip''"
    by (simp add: many_files_env_def slash_join_def)
  have l: "length (fst (analyzeCodebase many_files_env \<lparr>gitignorePatterns = None\<rparr> ''/r'')) = 50"
    by code_simp
  have n: "readFile no_rules_env (path_join no_rules_env [''/r'', ''.gitignore'']) = None"
    by (simp add: no_rules_env_def slash_join_def)
  have m: "map path (fst (analyzeCodebase no_rules_env \<lparr>gitignorePatterns = None\<rparr> ''/r''))
       = [''/r/a.rb'', ''/r/b.rb'']"
    by code_simp
  from discovery_cap[of many_files_env "''/r''" "\<lparr>gitignorePatterns = None\<rparr>"] r
  have a: "\<forall>x\<in>set (fst (analyzeCodebase many_files_env \<lparr>gitignorePatterns = None\<rparr> ''/r'')).
         \<exists>f\<in>set (glob many_files_env ''/r''). path x = path_join many_files_env [''/r'', f]
            \<and> \<not> ignores many_files_env ''skip'' f"
    unfolding Let_def by (metis (no_types, lifting))
  from discovery_cap[of no_rules_env "''/r''" "\<lparr>gitignorePatterns = None\<rparr>"] n
  have b: "fst (analyzeCodebase no_rules_env \<lparr>gitignorePatterns = None\<rparr> ''/r'')
       = List.map_filter (\<lambda>f. analyzeFile no_rules_env (path_join no_rules_env [''/r'', f]))
           (take 50 (glob no_rules_env ''/r''))"
    unfolding Let_def by simp
  from l have "fst (analyzeCodebase many_files_env \<lparr>gitignorePatterns = None\<rparr> ''/r'') \<noteq> []"
    by auto
  then have "hd (fst (analyzeCodebase many_files_env \<lparr>gitignorePatterns = None\<rparr> ''/r''))
      \<in> set (fst (analyzeCodebase many_files_env \<lparr>gitignorePatterns = None\<rparr> ''/r''))"
    by (rule hd_in_set)
  with a have "\<exists>f\<in>set (glob many_files_env ''/r'').
         path (hd (fst (analyzeCodebase many_files_env \<lparr>gitignorePatterns = None\<rparr> ''/r'')))
           = path_join many_files_env [''/r'', f]
         \<and> \<not> ignores many_files_env ''skip'' f"
    by blast
  with g i r l n b m show ?thesis by blast
qed

section \<open>Facts about the matcher\<close>

lemma set_star_ends: "set (star_ends cl s) = {s'. \<exists>w. s = w @ s' \<and> (\<forall>x\<in>set w. cmatch cl x)}"
proof (induction s)
  case Nil
  then show ?case by auto
next
  case (Cons a s)
  show ?case
  proof (intro set_eqI iffI)
    fix t assume "t \<in> set (star_ends cl (a # s))"
    then consider "t = a # s" | "cmatch cl a" "t \<in> set (star_ends cl s)"
      by (auto split: if_splits)
    then show "t \<in> {s'. \<exists>w. a # s = w @ s' \<and> (\<forall>x\<in>set w. cmatch cl x)}"
    proof cases
      case 1
      then show ?thesis by (auto intro: exI[of _ "[]"])
    next
      case 2
      with Cons obtain w where "s = w @ t" "\<forall>x\<in>set w. cmatch cl x" by auto
      with 2 show ?thesis by (auto intro: exI[of _ "a # w"])
    qed
  next
    fix t assume "t \<in> {s'. \<exists>w. a # s = w @ s' \<and> (\<forall>x\<in>set w. cmatch cl x)}"
    then obtain w where w: "a # s = w @ t" "\<forall>x\<in>set w. cmatch cl x" by auto
    show "t \<in> set (star_ends cl (a # s))"
    proof (cases w)
      case Nil
      with w have "t = a # s" by simp
      then show ?thesis by simp
    next
      case (Cons b w')
      with w have "a = b" "s = w' @ t" "cmatch cl a" "\<forall>x\<in>set w'. cmatch cl x" by auto
      then show ?thesis using Cons.IH by auto
    qed
  qed
qed

lemma set_rmatch: "set (rmatch r s c) = {(s', c'). \<exists>w. s = w @ s' \<and> (w, c') \<in> den r c}"
proof (induction r arbitrary: s c)
  case (Atom cl)
  then show ?case by (cases s) auto
next
  case Eps
  then show ?case by auto
next
  case (Seq a b)
  show ?case
    apply (simp add: Seq)
    apply (intro set_eqI iffI)
     apply clarsimp
     apply (metis append.assoc)
    apply clarsimp
    apply (metis append.assoc)
    done
next
  case (Alt a b)
  then show ?case by auto
next
  case (Star g cl)
  then show ?case by (cases g) (auto simp: set_star_ends)
next
  case (Group i r)
  show ?case
    apply (simp add: Group)
    apply (intro set_eqI iffI)
     apply (clarsimp simp: image_iff)
     apply blast
    apply (clarsimp simp: image_iff)
    apply force
    done
qed


lemma den_Str [simp]: "den (Str u) c = {(u, c)}"
  by (induction u) (auto simp: Str_def)

lemma den_Plus [simp]: "den (Plus g cl) c = {(w, c) | w. w \<noteq> [] \<and> (\<forall>x\<in>set w. cmatch cl x)}"
proof -
  have "\<exists>u v. w = u @ v \<and> (\<exists>x. u = [x] \<and> cmatch cl x) \<and> (\<forall>x\<in>set v. cmatch cl x)"
    if "w \<noteq> []" "\<forall>x\<in>set w. cmatch cl x" for w
  proof (cases w)
    case Nil
    with that show ?thesis by simp
  next
    case (Cons a list)
    with that show ?thesis by (intro exI[of _ "[a]"] exI[of _ list]) simp
  qed
  then show ?thesis by (auto simp: Plus_def)
qed

lemma den_Opt [simp]: "den (Opt r) c = den r c \<union> {([], c)}"
  by (simp add: Opt_def)

lemma den_Cat_Nil [simp]: "den (Cat []) c = {([], c)}"
  by (simp add: Cat_def)

lemma den_Cat_Cons [simp]:
  "den (Cat (r # rs)) c = {(u @ v, c2) | u v c1 c2. (u, c1) \<in> den r c \<and> (v, c2) \<in> den (Cat rs) c1}"
  by (simp add: Cat_def)

declare search.simps [simp del]

lemma search_SomeD:
  "search r n s = Some m \<Longrightarrow>
     \<exists>pre w post c. s = pre @ w @ post \<and> (w, c) \<in> den r (replicate (Suc n) None) \<and> m = c[0 := Some w]"
proof (induction s)
  case Nil
  then show ?case
  proof (cases "rmatch r [] (replicate (Suc n) None)")
    case Nil
    with Nil.prems show ?thesis by (simp add: search.simps[of r n "[]"])
  next
    case (Cons a list)
    obtain s' c where a: "a = (s', c)" by (cases a)
    with Cons have "(s', c) \<in> set (rmatch r [] (replicate (Suc n) None))" by simp
    then have "s' = []" "([], c) \<in> den r (replicate (Suc n) None)" by (auto simp: set_rmatch)
    moreover from Cons a Nil.prems have "m = c[0 := Some []]" 
      by (simp add: search.simps[of r n "[]"] \<open>s' = []\<close>)
    ultimately show ?thesis by auto
  qed
next
  case (Cons x s)
  show ?case
  proof (cases "rmatch r (x # s) (replicate (Suc n) None)")
    case Nil
    with Cons.prems have "search r n s = Some m" by (simp add: search.simps[of r n "x # s"])
    from Cons.IH[OF this] obtain pre w post c where
      "s = pre @ w @ post" "(w, c) \<in> den r (replicate (Suc n) None)" "m = c[0 := Some w]" by blast
    then have "x # s = (x # pre) @ w @ post" by simp
    then show ?thesis using \<open>(w, c) \<in> den r (replicate (Suc n) None)\<close> \<open>m = c[0 := Some w]\<close> by blast
  next
    case (Cons a list)
    obtain s' c where a: "a = (s', c)" by (cases a)
    with Cons have "(s', c) \<in> set (rmatch r (x # s) (replicate (Suc n) None))" by simp
    then obtain w where w: "x # s = w @ s'" "(w, c) \<in> den r (replicate (Suc n) None)"
      by (auto simp: set_rmatch)
    from Cons a Cons.prems have "m = c[0 := Some (take (length (x # s) - length s') (x # s))]"
      by (simp add: search.simps[of r n "x # s"])
    with w have "m = c[0 := Some w]" by simp
    with w show ?thesis by (metis append_Nil)
  qed
qed


lemma ngroups_Str [simp]: "ngroups (Str w) = 0"
  by (induction w) (auto simp: Str_def)

lemma ngroups_Plus [simp]: "ngroups (Plus g cl) = 0"
  by (simp add: Plus_def)

lemma ngroups_Opt [simp]: "ngroups (Opt r) = ngroups r"
  by (simp add: Opt_def)

lemma ngroups_Cat [simp]: "ngroups (Cat rs) = sum_list (map ngroups rs)"
  by (induction rs) (auto simp: Cat_def)


lemma re_match_den:
  assumes "re_match r l = Some m"
  obtains pre w post c where "l = pre @ w @ post"
    and "(w, c) \<in> den r (replicate (Suc (ngroups r)) None)" and "m = c[0 := Some w]"
  using assms search_SomeD[of r "ngroups r" l m] unfolding re_match_def by blast

section \<open>The containing function\<close>

lemma den_ruby_name [simp]:
  "den ruby_name c = {(w @ s, c) | w s. w \<noteq> [] \<and> (\<forall>x\<in>set w. is_word x) \<and> (s = [] \<or> s = ''!'' \<or> s = ''?'')}"
  by (auto simp: ruby_name_def)

lemma den_paren_args [simp]:
  "den paren_args c = {(''('' @ w @ '')'', c) | w. \<forall>x\<in>set w. x \<noteq> CHR '')''}"
  by (auto simp: paren_args_def)

lemma ngroups_ruby_name [simp]: "ngroups ruby_name = 0"
  by (simp add: ruby_name_def)

lemma ngroups_paren_args [simp]: "ngroups paren_args = 0"
  by (simp add: paren_args_def)

lemma declaration_group:
  assumes "r \<in> set declaration_patterns" and "re_match r l = Some m"
  shows "\<exists>n. at m 1 = Some n \<and> n \<noteq> []"
proof -
  from assms(2) obtain pre w post c where
    l: "l = pre @ w @ post" and d: "(w, c) \<in> den r (replicate (Suc (ngroups r)) None)"
    and m: "m = c[0 := Some w]"
    by (rule re_match_den)
  from assms(1) d have "\<exists>n. c = [None, Some n] \<and> n \<noteq> []"
    unfolding declaration_patterns_def
    by (auto simp: numeral_2_eq_2)
  with m show ?thesis by (auto simp: at_def)
qed


lemma first_declaration_Some:
  "first_declaration rs l = Some m \<Longrightarrow> \<exists>r\<in>set rs. re_match r l = Some m"
  by (induction rs) (auto split: option.splits)

lemma declared_name_iff: "declared_name l = None \<longleftrightarrow> \<not> declares l"
proof (cases "first_declaration declaration_patterns (trim l)")
  case None
  then show ?thesis by (simp add: declared_name_def declares_def)
next
  case (Some m)
  then obtain r where "r \<in> set declaration_patterns" "re_match r (trim l) = Some m"
    by (blast dest: first_declaration_Some)
  from declaration_group[OF this] Some show ?thesis
    by (auto simp: declared_name_def declares_def)
qed

lemma scan_back_find:
  "i < length lines \<Longrightarrow>
   scan_back lines i =
     Inr (case find (\<lambda>j. declares (lines ! j)) (rev [0..<Suc i]) of
            None \<Rightarrow> None | Some j \<Rightarrow> declared_name (lines ! j))"
proof (induction i)
  case 0
  then show ?case
    by (auto simp: declares_def declared_name_def split: option.splits)
next
  case (Suc i)
  then have ih: "scan_back lines i =
     Inr (case find (\<lambda>j. declares (lines ! j)) (rev [0..<Suc i]) of
            None \<Rightarrow> None | Some j \<Rightarrow> declared_name (lines ! j))" by simp
  show ?case
  proof (cases "declares (lines ! Suc i)")
    case True
    with Suc.prems show ?thesis
      by (auto simp: declares_def declared_name_def split: option.splits)
  next
    case False
    with Suc.prems ih show ?thesis
      by (auto simp: declares_def split: option.splits)
  qed
qed

text \<open>
  C7, as amended.  For an in-range target line the heuristic looks at the lines from the
  target line's own index down to index 0 and returns the name captured from the first of
  them (in this backward order) that a declaration recognizer matches; such a line always
  yields a name.  When none of these lines is matched the result is the ``unknown'' value
  (\<^verbatim>\<open>null\<close>), never an error.  A target line at index 0 yields ``unknown'' exactly when line 0
  itself is matched by no recognizer, and the name declared on line 0 otherwise.
\<close>

theorem containing_function_scan:
  assumes "0 \<le> t" and "t < int (length lines)"
  shows "findContainingFunction lines t =
           Inr (case find (\<lambda>j. declares (lines ! j)) (rev [0..<Suc (nat t)]) of
                  None \<Rightarrow> None | Some j \<Rightarrow> declared_name (lines ! j))
         \<and> (\<forall>j. declares (lines ! j) \<longrightarrow> (\<exists>n. declared_name (lines ! j) = Some n \<and> n \<noteq> []))
         \<and> ((\<forall>j \<le> nat t. \<not> declares (lines ! j)) \<longrightarrow> findContainingFunction lines t = Inr None)
         \<and> (t = 0 \<longrightarrow> findContainingFunction lines t = Inr (declared_name (lines ! 0))
                    \<and> (findContainingFunction lines t = Inr None \<longleftrightarrow> \<not> declares (lines ! 0)))"
proof -
  from assms have i: "nat t < length lines" by simp
  from assms have 1: "findContainingFunction lines t =
           Inr (case find (\<lambda>j. declares (lines ! j)) (rev [0..<Suc (nat t)]) of
                  None \<Rightarrow> None | Some j \<Rightarrow> declared_name (lines ! j))"
    using scan_back_find[OF i] by (simp add: findContainingFunction_def)
  have 2: "\<exists>n. declared_name (lines ! j) = Some n \<and> n \<noteq> []" if "declares (lines ! j)" for j
  proof -
    from that obtain m where m: "first_declaration declaration_patterns (trim (lines ! j)) = Some m"
      by (auto simp: declares_def)
    then obtain r where "r \<in> set declaration_patterns" "re_match r (trim (lines ! j)) = Some m"
      by (blast dest: first_declaration_Some)
    from declaration_group[OF this] m show ?thesis by (simp add: declared_name_def)
  qed
  have 3: "findContainingFunction lines t = Inr None" if "\<forall>j \<le> nat t. \<not> declares (lines ! j)"
  proof -
    from that have "find (\<lambda>j. declares (lines ! j)) (rev [0..<Suc (nat t)]) = None"
      by (auto simp: find_None_iff)
    with 1 show ?thesis by simp
  qed
  have 4: "findContainingFunction lines t = Inr (declared_name (lines ! 0))
           \<and> (findContainingFunction lines t = Inr None \<longleftrightarrow> \<not> declares (lines ! 0))" if "t = 0"
    using 1 that declared_name_iff[of "lines ! 0"] by (auto split: if_splits)
  from 1 2 3 4 show ?thesis by blast
qed

theorem containing_function_scan_counterexample:
  "findContainingFunction [''def foo''] 0 = Inr (Some ''foo'')"
  by code_simp

theorem containing_function_scan_witness:
  "(0::int) \<le> 2 \<and> (2::int) < int (length [''  def run(x)'', ''    y = x'', ''    y.go''])
   \<and> findContainingFunction [''  def run(x)'', ''    y = x'', ''    y.go''] 2 = Inr (Some ''run'')
   \<and> declares ''  def run(x)'' \<and> \<not> declares ''    y = x'' \<and> \<not> declares ''    y.go''
   \<and> findContainingFunction [''    y = x'', ''    y.go''] 1 = Inr None
   \<and> findContainingFunction [''    y = x'', ''    y.go''] 0 = Inr None
   \<and> findContainingFunction [''def foo''] 0 = Inr (declared_name ''def foo'')"
proof -
  have d: "declares ''  def run(x)''" "\<not> declares ''    y = x''" "\<not> declares ''    y.go''"
    by code_simp+
  have n: "declared_name ''  def run(x)'' = Some ''run''" by code_simp
  from containing_function_scan[of 2 "[''  def run(x)'', ''    y = x'', ''    y.go'']"] d n
  have a: "findContainingFunction [''  def run(x)'', ''    y = x'', ''    y.go''] 2 = Inr (Some ''run'')"
    by (simp add: eval_nat_numeral)
  from containing_function_scan[of 1 "[''    y = x'', ''    y.go'']"] d
  have b: "findContainingFunction [''    y = x'', ''    y.go''] 1 = Inr None"
    by (simp add: less_Suc_eq_le[symmetric] less_Suc_eq)
  from containing_function_scan[of 0 "[''    y = x'', ''    y.go'']"] d
  have c: "findContainingFunction [''    y = x'', ''    y.go''] 0 = Inr None"
    by simp
  have z: "(0::int) \<le> 0" "(0::int) < int (length [''def foo''])" by simp_all
  from containing_function_scan[OF z]
  have "findContainingFunction [''def foo''] 0 = Inr (declared_name ([''def foo''] ! 0))"
    by blast
  then have e: "findContainingFunction [''def foo''] 0 = Inr (declared_name ''def foo'')"
    by simp
  from a b c d e show ?thesis by simp
qed

section \<open>The first way of matching\<close>

lemma first_way_Eps [simp]: "first_way Eps s c = Some (s, c)"
  by (simp add: first_way_def)







lemma star_ends_append:
  "\<forall>x\<in>set u. cmatch cl x \<Longrightarrow> \<exists>pre. star_ends cl (u @ v) = pre @ star_ends cl v"
proof (induction u)
  case Nil
  then show ?case by simp
next
  case (Cons a u)
  then obtain pre where "star_ends cl (u @ v) = pre @ star_ends cl v" by auto
  with Cons.prems have "star_ends cl ((a # u) @ v) = ((a # u @ v) # pre) @ star_ends cl v"
    by simp
  then show ?case by blast
qed

lemma star_ends_Cons: "\<exists>rest. star_ends cl v = v # rest \<and> v \<notin> set rest"
proof (cases v)
  case Nil
  then show ?thesis by simp
next
  case (Cons a w)
  have "a # w \<notin> set (star_ends cl w)"
  proof
    assume "a # w \<in> set (star_ends cl w)"
    then obtain p where "w = p @ a # w" by (auto simp: set_star_ends)
    then have "length w = length (p @ a # w)" by simp
    then show False by simp
  qed
  with Cons show ?thesis by simp
qed

text \<open>
  A greedy run followed by \<open>f\<close>: when the characters of \<open>u\<close> are of the class, \<open>f\<close> succeeds
  at \<open>v\<close> and fails at every later stop of the run, the first result is the first result
  of \<open>f\<close> at \<open>v\<close>.
\<close>

lemma greedy_first:
  assumes u: "\<forall>x\<in>set u. cmatch cl x"
    and fail: "\<forall>t\<in>set (star_ends cl v). t \<noteq> v \<longrightarrow> f t = []"
    and hit: "f v = r # rs"
  shows "\<exists>rs'. concat (map f (rev (star_ends cl (u @ v)))) = r # rs'"
proof -
  from star_ends_append[OF u] obtain pre where p: "star_ends cl (u @ v) = pre @ star_ends cl v"
    by blast
  from star_ends_Cons obtain rest where r: "star_ends cl v = v # rest" "v \<notin> set rest"
    by blast
  from fail r have "\<forall>t\<in>set rest. f t = []" by auto
  then have e: "concat (map f (rev rest)) = []" by simp
  show ?thesis by (simp add: p r e hit)
qed

lemma greedy_none:
  assumes "\<forall>t\<in>set (star_ends cl s). f t = []"
  shows "concat (map f (rev (star_ends cl s))) = []"
  using assms by simp

lemma rmatch_Star_Greedy_Seq:
  "rmatch (Seq (Star Greedy cl) b) s c = concat (map (\<lambda>t. rmatch b t c) (rev (star_ends cl s)))"
  by (simp add: comp_def)






section \<open>File names\<close>

lemma sep_fails:
  assumes "t = [] \<or> \<not> is_sep (hd t)"
  shows "rmatch (Atom (OneOf [bslash, CHR ''/''])) t c = []"
  using assms by (cases t) (auto simp: is_sep_def)

lemma star_ends_suffix: "t \<in> set (star_ends cl s) \<Longrightarrow> \<exists>w. s = w @ t"
  by (auto simp: set_star_ends)

lemma suffix_hd_in_set: "s = w @ t \<Longrightarrow> t \<noteq> [] \<Longrightarrow> hd t \<in> set s"
  by (cases t) auto

lemma final_segment_id:
  assumes "\<forall>y\<in>set s. \<not> is_sep y"
  shows "final_segment s = s"
proof -
  from assms have "takeWhile (\<lambda>c. \<not> is_sep c) (rev s) = rev s"
    by (intro takeWhile_eq_all_conv[THEN iffD2]) simp
  then show ?thesis by (simp only: final_segment_def rev_rev_ident)
qed

lemma final_segment_split:
  assumes "is_sep x" and "\<forall>y\<in>set b. \<not> is_sep y"
  shows "final_segment (a @ x # b) = b"
proof -
  have "takeWhile (\<lambda>c. \<not> is_sep c) (rev b @ x # rev a) = rev b @ takeWhile (\<lambda>c. \<not> is_sep c) (x # rev a)"
    using assms(2) by (intro takeWhile_append2) simp
  with assms(1) have "takeWhile (\<lambda>c. \<not> is_sep c) (rev (a @ x # b)) = rev b"
    by simp
  then show ?thesis by (simp only: final_segment_def rev_rev_ident)
qed

text \<open>
  On a string without line terminators \<^verbatim>\<open>replace(/^.*[\\\/]/, '')\<close> leaves the final path
  segment.
\<close>

lemma strip_dirs_final:
  assumes nt: "no_terminator s"
  shows "strip_dirs s = final_segment s"
proof (cases "\<exists>x\<in>set s. is_sep x")
  case False
  have "rmatch (Atom (OneOf [bslash, CHR ''/''])) t [None] = []" if "t \<in> set (star_ends Dot s)" for t
  proof (rule sep_fails)
    from star_ends_suffix[OF that] obtain w where "s = w @ t" ..
    with False suffix_hd_in_set[OF this] show "t = [] \<or> \<not> is_sep (hd t)" by blast
  qed
  then have "rmatch dir_prefix s [None] = []"
    unfolding dir_prefix_def rmatch_Star_Greedy_Seq by (simp del: rmatch.simps)
  moreover from False have "final_segment s = s"
    by (intro final_segment_id) simp
  ultimately show ?thesis by (simp add: strip_dirs_def)
next
  case True
  from split_list_last_prop[OF this]
  obtain a x b where s: "s = a @ x # b" and x: "is_sep x" and b: "\<forall>y\<in>set b. \<not> is_sep y"
    by blast
  from nt s have a: "\<forall>y\<in>set a. cmatch Dot y"
    by (simp add: no_terminator_def list_all_iff)
  have fail: "\<forall>t\<in>set (star_ends Dot (x # b)). t \<noteq> x # b \<longrightarrow>
      rmatch (Atom (OneOf [bslash, CHR ''/''])) t [None] = []"
  proof (intro ballI impI)
    fix t assume "t \<in> set (star_ends Dot (x # b))" "t \<noteq> x # b"
    then have "t \<in> set (star_ends Dot b)" by (auto split: if_splits)
    from star_ends_suffix[OF this] obtain w where "b = w @ t" ..
    with b suffix_hd_in_set[OF this] have "t = [] \<or> \<not> is_sep (hd t)" by blast
    then show "rmatch (Atom (OneOf [bslash, CHR ''/''])) t [None] = []" by (rule sep_fails)
  qed
  have hit: "rmatch (Atom (OneOf [bslash, CHR ''/''])) (x # b) [None] = (b, [None]) # []"
    using x by (simp add: is_sep_def)
  from greedy_first[OF a fail hit] obtain rs where
    "rmatch dir_prefix s [None] = (b, [None]) # rs"
    unfolding dir_prefix_def rmatch_Star_Greedy_Seq s by blast
  then have "strip_dirs s = b" by (simp add: strip_dirs_def)
  moreover have "final_segment s = b"
    unfolding s using x b by (rule final_segment_split)
  ultimately show ?thesis by simp
qed



section \<open>The trace parser\<close>

lemma occurs_in_here: "occurs_in x (x @ b)"
  unfolding occurs_in_def by (metis append_Nil)

lemma occurs_in_Cons: "occurs_in x l \<Longrightarrow> occurs_in x (a # l)"
  unfolding occurs_in_def by (metis append_Cons)

lemma occurs_in_append: "occurs_in x l \<Longrightarrow> occurs_in x (a @ l)"
  unfolding occurs_in_def by (metis append.assoc)

lemmas occurs_in_intros = occurs_in_here occurs_in_Cons occurs_in_append

lemma shape_ruby_from:
  assumes "re_match (expr pat_ruby_from) l = Some m"
  shows "\<exists>full pth ds fn. m = [Some full, Some pth, Some ds, Some fn]
     \<and> occurs_in pth l \<and> occurs_in ds l \<and> pth \<noteq> [] \<and> no_terminator pth \<and> digits ds"
proof -
  from assms obtain pre w post c where
    l: "l = pre @ w @ post" and
    d: "(w, c) \<in> den (expr pat_ruby_from) (replicate (Suc (ngroups (expr pat_ruby_from))) None)" and
    m: "m = c[0 := Some w]"
    by (rule re_match_den)
  from d obtain a pth ds b fn where
    w: "w = ''from'' @ a @ pth @ '':'' @ ds @ '':in'' @ b @ ''`'' @ fn @ [squote]" and
    c: "c = [None, Some pth, Some ds, Some fn]" and
    p: "pth \<noteq> []" "no_terminator pth" "digits ds"
    by (clarsimp simp: pat_ruby_from_def numeral_3_eq_3 digits_def no_terminator_def list_all_iff)
  have "occurs_in pth l" "occurs_in ds l"
    by (simp_all add: l w) (blast intro: occurs_in_intros)+
  with m c p show ?thesis by simp
qed

lemma shape_ruby_in:
  assumes "re_match (expr pat_ruby_in) l = Some m"
  shows "\<exists>full pth ds fn. m = [Some full, Some pth, Some ds, Some fn]
     \<and> occurs_in pth l \<and> occurs_in ds l \<and> pth \<noteq> [] \<and> no_terminator pth \<and> digits ds"
proof -
  from assms obtain pre w post c where
    l: "l = pre @ w @ post" and
    d: "(w, c) \<in> den (expr pat_ruby_in) (replicate (Suc (ngroups (expr pat_ruby_in))) None)" and
    m: "m = c[0 := Some w]"
    by (rule re_match_den)
  from d obtain pth ds b fn where
    w: "w = pth @ '':'' @ ds @ '':in'' @ b @ ''`'' @ fn @ [squote]" and
    c: "c = [None, Some pth, Some ds, Some fn]" and
    p: "pth \<noteq> []" "no_terminator pth" "digits ds"
    by (clarsimp simp: pat_ruby_in_def numeral_3_eq_3 digits_def no_terminator_def list_all_iff)
  have "occurs_in pth l" "occurs_in ds l"
    by (simp_all add: l w) (blast intro: occurs_in_intros)+
  with m c p show ?thesis by simp
qed

lemma shape_ruby_simple:
  assumes "re_match (expr pat_ruby_simple) l = Some m"
  shows "\<exists>full pth ds. m = [Some full, Some pth, Some ds]
     \<and> occurs_in pth l \<and> occurs_in ds l \<and> pth \<noteq> [] \<and> no_terminator pth \<and> digits ds"
proof -
  from assms obtain pre w post c where
    l: "l = pre @ w @ post" and
    d: "(w, c) \<in> den (expr pat_ruby_simple) (replicate (Suc (ngroups (expr pat_ruby_simple))) None)" and
    m: "m = c[0 := Some w]"
    by (rule re_match_den)
  from d obtain u ds where
    w: "w = (u @ ''.rb'') @ '':'' @ ds" and
    c: "c = [None, Some (u @ ''.rb''), Some ds]" and
    p: "no_terminator u" "digits ds"
    by (clarsimp simp: pat_ruby_simple_def numeral_2_eq_2 digits_def no_terminator_def list_all_iff)
  from p have q: "no_terminator (u @ ''.rb'')"
    by (simp add: no_terminator_def is_line_terminator_def)
  have "occurs_in (u @ ''.rb'') l"
    unfolding occurs_in_def l w by (intro exI[of _ pre] exI[of _ "'':'' @ ds @ post"]) simp
  moreover have "occurs_in ds l"
    unfolding occurs_in_def l w by (intro exI[of _ "pre @ u @ ''.rb:''"] exI[of _ post]) simp
  ultimately show ?thesis using m c p q by simp
qed

lemma shape_js:
  assumes "re_match (expr pat_js) l = Some m"
  shows "\<exists>full fn pth ds cs. m = [Some full, Some fn, Some pth, Some ds, Some cs]
     \<and> occurs_in pth l \<and> occurs_in ds l \<and> occurs_in cs l
     \<and> pth \<noteq> [] \<and> no_terminator pth \<and> digits ds \<and> digits cs"
proof -
  from assms obtain pre w post c where
    l: "l = pre @ w @ post" and
    d: "(w, c) \<in> den (expr pat_js) (replicate (Suc (ngroups (expr pat_js))) None)" and
    m: "m = c[0 := Some w]"
    by (rule re_match_den)
  from d obtain a fn b pth ds cs where
    w: "w = ''at'' @ a @ fn @ b @ ''('' @ pth @ '':'' @ ds @ '':'' @ cs @ '')''" and
    c: "c = [None, Some fn, Some pth, Some ds, Some cs]" and
    p: "pth \<noteq> []" "no_terminator pth" "digits ds" "digits cs"
    by (clarsimp simp: pat_js_def eval_nat_numeral digits_def no_terminator_def list_all_iff)
  have "occurs_in pth l" "occurs_in ds l" "occurs_in cs l"
    by (simp_all add: l w) (blast intro: occurs_in_intros)+
  with m c p show ?thesis by simp
qed

lemma shape_python:
  assumes "re_match (expr pat_python) l = Some m"
  shows "\<exists>full pth ds fn. m = [Some full, Some pth, Some ds, Some fn]
     \<and> occurs_in pth l \<and> occurs_in ds l \<and> pth \<noteq> [] \<and> no_terminator pth \<and> digits ds"
proof -
  from assms obtain pre w post c where
    l: "l = pre @ w @ post" and
    d: "(w, c) \<in> den (expr pat_python) (replicate (Suc (ngroups (expr pat_python))) None)" and
    m: "m = c[0 := Some w]"
    by (rule re_match_den)
  from d obtain a pth b c2 ds e f fn where
    w: "w = ''File'' @ a @ [dquote] @ pth @ [dquote] @ '','' @ b @ ''line'' @ c2 @ ds @ '','' @ e @ ''in'' @ f @ fn" and
    c: "c = [None, Some pth, Some ds, Some fn]" and
    p: "pth \<noteq> []" "no_terminator pth" "digits ds"
    by (clarsimp simp: pat_python_def numeral_3_eq_3 digits_def no_terminator_def list_all_iff)
  have "occurs_in pth l" "occurs_in ds l"
    by (simp_all add: l w) (blast intro: occurs_in_intros)+
  with m c p show ?thesis by simp
qed

lemma shape_java:
  assumes "re_match (expr pat_java) l = Some m"
  shows "\<exists>full fn pth ds. m = [Some full, Some fn, Some pth, Some ds]
     \<and> occurs_in pth l \<and> occurs_in ds l \<and> pth \<noteq> [] \<and> no_terminator pth \<and> digits ds"
proof -
  from assms obtain pre w post c where
    l: "l = pre @ w @ post" and
    d: "(w, c) \<in> den (expr pat_java) (replicate (Suc (ngroups (expr pat_java))) None)" and
    m: "m = c[0 := Some w]"
    by (rule re_match_den)
  from d obtain a fn pth ds where
    w: "w = ''at'' @ a @ fn @ ''('' @ pth @ '':'' @ ds @ '')''" and
    c: "c = [None, Some fn, Some pth, Some ds]" and
    p: "pth \<noteq> []" "no_terminator pth" "digits ds"
    by (clarsimp simp: pat_java_def numeral_3_eq_3 digits_def no_terminator_def list_all_iff)
  have "occurs_in pth l" "occurs_in ds l"
    by (simp_all add: l w) (blast intro: occurs_in_intros)+
  with m c p show ?thesis by simp
qed

lemma shape_generic:
  assumes "re_match (expr pat_generic) l = Some m"
  shows "\<exists>full fn pth ds. m = [Some full, Some fn, Some pth, Some ds]
     \<and> occurs_in pth l \<and> occurs_in ds l \<and> pth \<noteq> [] \<and> no_terminator pth \<and> digits ds"
proof -
  from assms obtain pre w post c where
    l: "l = pre @ w @ post" and
    d: "(w, c) \<in> den (expr pat_generic) (replicate (Suc (ngroups (expr pat_generic))) None)" and
    m: "m = c[0 := Some w]"
    by (rule re_match_den)
  from d obtain fn a pth ds where
    w: "w = fn @ a @ pth @ '':'' @ ds" and
    c: "c = [None, Some fn, Some pth, Some ds]" and
    p: "pth \<noteq> []" "no_terminator pth" "digits ds"
    by (clarsimp simp: pat_generic_def numeral_3_eq_3 digits_def no_terminator_def list_all_iff)
  have "occurs_in pth l" "occurs_in ds l"
    by (simp_all add: l w) (blast intro: occurs_in_intros)+
  with m c p show ?thesis by simp
qed

text \<open>Which branch of the dispatch on \<^verbatim>\<open>pattern.source\<close> each recognizer takes.\<close>

lemma source_simps:
  "source pat_ruby_from = ''from'' @ [bslash] @ ''s+(.+?):('' @ [bslash] @ ''d+):in'' @ [bslash]
     @ ''s+`(.+?)'' @ [squote]"
  "source pat_ruby_in = ''(.+?):('' @ [bslash] @ ''d+):in'' @ [bslash] @ ''s+`(.+?)'' @ [squote]"
  "source pat_ruby_simple = ''(.+'' @ [bslash] @ ''.rb):('' @ [bslash] @ ''d+)''"
  "source pat_js = ''at'' @ [bslash] @ ''s+(.+?)'' @ [bslash] @ ''s+'' @ [bslash] @ ''((.+?):(''
     @ [bslash] @ ''d+):('' @ [bslash] @ ''d+)'' @ [bslash] @ '')''"
  "source pat_python = ''File'' @ [bslash] @ ''s+'' @ [dquote] @ ''(.+?)'' @ [dquote] @ '',''
     @ [bslash] @ ''s+line'' @ [bslash] @ ''s+('' @ [bslash] @ ''d+),'' @ [bslash] @ ''s+in''
     @ [bslash] @ ''s+(.+)''"
  "source pat_java = ''at'' @ [bslash] @ ''s+(.+?)'' @ [bslash] @ ''((.+?):('' @ [bslash] @ ''d+)''
     @ [bslash] @ '')''"
  "source pat_generic = ''('' @ [bslash] @ ''w+)'' @ [bslash] @ ''s+(.+?):('' @ [bslash] @ ''d+)''"
  by (simp_all add: pat_ruby_from_def pat_ruby_in_def pat_ruby_simple_def pat_js_def
      pat_python_def pat_java_def pat_generic_def)

lemma flags_ruby_from: "str_includes (source pat_ruby_from) (''from'' @ [bslash] @ ''s+'')"
  unfolding source_simps by (simp add: bslash_def squote_def)

lemma flags_ruby_in:
  "\<not> str_includes (source pat_ruby_in) (''from'' @ [bslash] @ ''s+'')"
  "str_includes (source pat_ruby_in) (''in'' @ [bslash] @ ''s+`'')"
  unfolding source_simps by (simp_all add: bslash_def squote_def)

lemma flags_ruby_simple:
  "\<not> str_includes (source pat_ruby_simple) (''from'' @ [bslash] @ ''s+'')"
  "\<not> str_includes (source pat_ruby_simple) (''in'' @ [bslash] @ ''s+`'')"
  "str_includes (source pat_ruby_simple) ([bslash] @ ''.rb'')"
  unfolding source_simps by (simp_all add: bslash_def)

lemma flags_js:
  "\<not> str_includes (source pat_js) (''from'' @ [bslash] @ ''s+'')"
  "\<not> str_includes (source pat_js) (''in'' @ [bslash] @ ''s+`'')"
  "\<not> str_includes (source pat_js) ([bslash] @ ''.rb'')"
  "\<not> str_includes (source pat_js) (''File'' @ [bslash] @ ''s+'')"
  unfolding source_simps by (simp_all add: bslash_def)

lemma flags_python:
  "\<not> str_includes (source pat_python) (''from'' @ [bslash] @ ''s+'')"
  "\<not> str_includes (source pat_python) (''in'' @ [bslash] @ ''s+`'')"
  "\<not> str_includes (source pat_python) ([bslash] @ ''.rb'')"
  "str_includes (source pat_python) (''File'' @ [bslash] @ ''s+'')"
  unfolding source_simps by (simp_all add: bslash_def dquote_def)

lemma flags_java:
  "\<not> str_includes (source pat_java) (''from'' @ [bslash] @ ''s+'')"
  "\<not> str_includes (source pat_java) (''in'' @ [bslash] @ ''s+`'')"
  "\<not> str_includes (source pat_java) ([bslash] @ ''.rb'')"
  "\<not> str_includes (source pat_java) (''File'' @ [bslash] @ ''s+'')"
  unfolding source_simps by (simp_all add: bslash_def)

lemma flags_generic:
  "\<not> str_includes (source pat_generic) (''from'' @ [bslash] @ ''s+'')"
  "\<not> str_includes (source pat_generic) (''in'' @ [bslash] @ ''s+`'')"
  "\<not> str_includes (source pat_generic) ([bslash] @ ''.rb'')"
  "\<not> str_includes (source pat_generic) (''File'' @ [bslash] @ ''s+'')"
  unfolding source_simps by (simp_all add: bslash_def)

lemma dispatch_ruby_from:
  "frame_of pat_ruby_from m = mk_frame (at m 1) (at m 2) (at m 3) None"
  by (simp only: frame_of_def flags_ruby_from if_True)

lemma dispatch_ruby_in:
  "frame_of pat_ruby_in m = mk_frame (at m 1) (at m 2) (at m 3) None"
  by (simp only: frame_of_def flags_ruby_in if_True if_False)

lemma dispatch_ruby_simple:
  "frame_of pat_ruby_simple m = mk_frame (at m 1) (at m 2) (Some ''<unknown>'') None"
  by (simp only: frame_of_def flags_ruby_simple if_True if_False)

lemma dispatch_js:
  "length m \<ge> 4 \<Longrightarrow> frame_of pat_js m = mk_frame (at m 2) (at m 3) (at m 1) (at m 4)"
  by (simp only: frame_of_def flags_js if_True if_False)

lemma dispatch_python:
  "frame_of pat_python m = mk_frame (at m 1) (at m 2) (at m 3) None"
  by (simp only: frame_of_def flags_python if_True if_False)

lemma dispatch_java:
  "length m \<ge> 4 \<Longrightarrow> frame_of pat_java m = mk_frame (at m 2) (at m 3) (at m 1) (at m 4)"
  by (simp only: frame_of_def flags_java if_True if_False)

lemma dispatch_generic:
  "length m \<ge> 4 \<Longrightarrow> frame_of pat_generic m = mk_frame (at m 2) (at m 3) (at m 1) (at m 4)"
  by (simp only: frame_of_def flags_generic if_True if_False)

lemma pat_js_distinct:
  "pat_ruby_from \<noteq> pat_js" "pat_ruby_in \<noteq> pat_js" "pat_ruby_simple \<noteq> pat_js"
  "pat_python \<noteq> pat_js" "pat_java \<noteq> pat_js" "pat_generic \<noteq> pat_js"
proof -
  have "source pat_ruby_from \<noteq> source pat_js" "source pat_ruby_in \<noteq> source pat_js"
    "source pat_ruby_simple \<noteq> source pat_js" "source pat_python \<noteq> source pat_js"
    "source pat_java \<noteq> source pat_js" "source pat_generic \<noteq> source pat_js"
    unfolding source_simps by (simp_all add: bslash_def)
  then show "pat_ruby_from \<noteq> pat_js" "pat_ruby_in \<noteq> pat_js" "pat_ruby_simple \<noteq> pat_js"
    "pat_python \<noteq> pat_js" "pat_java \<noteq> pat_js" "pat_generic \<noteq> pat_js"
    by auto
qed

text \<open>
  What a match of a recognizer gives: a frame, never the error, built from a path and a
  run of digits that both occur in the line.
\<close>

lemma frame_of_match:
  assumes "p \<in> set patterns" and "re_match (expr p) l = Some m"
  shows "\<exists>pth ds fn col.
           frame_of p m = Inr \<lparr>filename = final_segment pth, func = fn, line = parseInt ds,
                               column = col\<rparr>
         \<and> Some pth \<in> set m \<and> Some ds \<in> set m \<and> occurs_in pth l \<and> occurs_in ds l \<and> digits ds
         \<and> (if p = pat_js
             then \<exists>cs. at m 4 = Some cs \<and> digits cs \<and> occurs_in cs l \<and> col = Some (parseInt cs)
             else col = None)"
proof -
  from assms(1) consider "p = pat_ruby_from" | "p = pat_ruby_in" | "p = pat_ruby_simple"
    | "p = pat_js" | "p = pat_python" | "p = pat_java" | "p = pat_generic"
    by (auto simp: patterns_def)
  then show ?thesis
  proof cases
    case 1
    from shape_ruby_from[OF assms(2)[unfolded 1]] obtain full pth ds fn where
      "m = [Some full, Some pth, Some ds, Some fn]" "occurs_in pth l" "occurs_in ds l"
      "no_terminator pth" "digits ds" by blast
    then show ?thesis
      unfolding 1 dispatch_ruby_from
      by (intro exI[of _ pth] exI[of _ ds] exI[of _ fn] exI[of _ None])
        (simp add: mk_frame_def at_def strip_dirs_final pat_js_distinct)
  next
    case 2
    from shape_ruby_in[OF assms(2)[unfolded 2]] obtain full pth ds fn where
      "m = [Some full, Some pth, Some ds, Some fn]" "occurs_in pth l" "occurs_in ds l"
      "no_terminator pth" "digits ds" by blast
    then show ?thesis
      unfolding 2 dispatch_ruby_in
      by (intro exI[of _ pth] exI[of _ ds] exI[of _ fn] exI[of _ None])
        (simp add: mk_frame_def at_def strip_dirs_final pat_js_distinct)
  next
    case 3
    from shape_ruby_simple[OF assms(2)[unfolded 3]] obtain full pth ds where
      "m = [Some full, Some pth, Some ds]" "occurs_in pth l" "occurs_in ds l"
      "no_terminator pth" "digits ds" by blast
    then show ?thesis
      unfolding 3 dispatch_ruby_simple
      by (intro exI[of _ pth] exI[of _ ds] exI[of _ "''<unknown>''"] exI[of _ None])
        (simp add: mk_frame_def at_def strip_dirs_final pat_js_distinct)
  next
    case 4
    from shape_js[OF assms(2)[unfolded 4]] obtain full fn pth ds cs where
      m: "m = [Some full, Some fn, Some pth, Some ds, Some cs]" and
      r: "occurs_in pth l" "occurs_in ds l" "occurs_in cs l"
      "no_terminator pth" "digits ds" "digits cs" by blast
    from m have "4 \<le> length m" by simp
    from dispatch_js[OF this] m r show ?thesis
      unfolding 4
      by (intro exI[of _ pth] exI[of _ ds] exI[of _ fn] exI[of _ "Some (parseInt cs)"])
        (simp add: mk_frame_def at_def strip_dirs_final)
  next
    case 5
    from shape_python[OF assms(2)[unfolded 5]] obtain full pth ds fn where
      "m = [Some full, Some pth, Some ds, Some fn]" "occurs_in pth l" "occurs_in ds l"
      "no_terminator pth" "digits ds" by blast
    then show ?thesis
      unfolding 5 dispatch_python
      by (intro exI[of _ pth] exI[of _ ds] exI[of _ fn] exI[of _ None])
        (simp add: mk_frame_def at_def strip_dirs_final pat_js_distinct)
  next
    case 6
    from shape_java[OF assms(2)[unfolded 6]] obtain full fn pth ds where
      m: "m = [Some full, Some fn, Some pth, Some ds]" and
      r: "occurs_in pth l" "occurs_in ds l" "no_terminator pth" "digits ds" by blast
    from m have "4 \<le> length m" by simp
    from dispatch_java[OF this] m r show ?thesis
      unfolding 6
      by (intro exI[of _ pth] exI[of _ ds] exI[of _ fn] exI[of _ None])
        (simp add: mk_frame_def at_def strip_dirs_final pat_js_distinct)
  next
    case 7
    from shape_generic[OF assms(2)[unfolded 7]] obtain full fn pth ds where
      m: "m = [Some full, Some fn, Some pth, Some ds]" and
      r: "occurs_in pth l" "occurs_in ds l" "no_terminator pth" "digits ds" by blast
    from m have "4 \<le> length m" by simp
    from dispatch_generic[OF this] m r show ?thesis
      unfolding 7
      by (intro exI[of _ pth] exI[of _ ds] exI[of _ fn] exI[of _ None])
        (simp add: mk_frame_def at_def strip_dirs_final pat_js_distinct)
  qed
qed

lemma first_match_Some:
  "first_match ps l = Some (p, m) \<Longrightarrow> p \<in> set ps \<and> re_match (expr p) l = Some m"
  by (induction ps) (auto split: option.splits)

lemma first_match_frame:
  assumes "first_match patterns l = Some (p, m)"
  shows "\<exists>fr. frame_of p m = Inr fr"
proof -
  from first_match_Some[OF assms] frame_of_match[of p l m] show ?thesis by blast
qed

lemma parse_lines_total: "\<exists>fs. parse_lines ls = Inr fs \<and> length fs \<le> length ls"
proof (induction ls)
  case Nil
  then show ?case by simp
next
  case (Cons l ls)
  then obtain fs where fs: "parse_lines ls = Inr fs" "length fs \<le> length ls" by blast
  show ?case
  proof (cases "first_match patterns l")
    case None
    with fs show ?thesis by simp
  next
    case (Some pm)
    obtain p m where pm: "pm = (p, m)" by (cases pm)
    from first_match_frame[OF Some[unfolded pm]] obtain fr where "frame_of p m = Inr fr" ..
    with Some pm fs show ?thesis by simp
  qed
qed

lemma parse_lines_append:
  assumes "parse_lines xs = Inr a" and "parse_lines ys = Inr b"
  shows "parse_lines (xs @ ys) = Inr (a @ b)"
  using assms
proof (induction xs arbitrary: a)
  case Nil
  then show ?case by simp
next
  case (Cons l xs)
  from parse_lines_total[of xs] obtain fs where fs: "parse_lines xs = Inr fs" by blast
  with Cons.IH[OF fs Cons.prems(2)] have ih: "parse_lines (xs @ ys) = Inr (fs @ b)" by simp
  from Cons.prems(1) fs ih show ?case
    by (auto split: option.splits sum.splits)
qed

text \<open>
  C4.  For every input text \<^verbatim>\<open>parseStackTrace\<close> returns a sequence of frames and never the
  error, with at most one frame per line.  A line that no recognizer matches contributes
  nothing, the frames of the lines come in the order of the lines, and a text without a
  matching line gives the empty sequence.  \<^verbatim>\<open>analyzeStackTrace\<close> never fails either, and on
  the empty sequence it returns the ``could not parse'' report.
\<close>

theorem parse_never_fails:
  "(\<exists>frames. parseStackTrace stackTrace = Inr frames
       \<and> length frames \<le> length (split_nl stackTrace))
   \<and> (first_match patterns l = None \<longrightarrow>
        parse_lines (before @ l # after) = parse_lines (before @ after))
   \<and> (parse_lines xs = Inr a \<and> parse_lines ys = Inr b \<longrightarrow> parse_lines (xs @ ys) = Inr (a @ b))
   \<and> ((\<forall>l\<in>set (split_nl stackTrace). first_match patterns l = None) \<longrightarrow>
        parseStackTrace stackTrace = Inr [])
   \<and> (\<exists>report. analyzeStackTrace e stackTrace root = Inr report)
   \<and> (parseStackTrace stackTrace = Inr [] \<longleftrightarrow>
        analyzeStackTrace e stackTrace root = Inr CouldNotParse)"
proof -
  from parse_lines_total[of "split_nl stackTrace"] obtain frames where
    f: "parseStackTrace stackTrace = Inr frames" "length frames \<le> length (split_nl stackTrace)"
    by (auto simp: parseStackTrace_def)
  have 2: "parse_lines (before @ l # after) = parse_lines (before @ after)"
    if n: "first_match patterns l = None"
  proof -
    from parse_lines_total[of before] obtain u where u: "parse_lines before = Inr u" by blast
    from parse_lines_total[of after] obtain v where v: "parse_lines after = Inr v" by blast
    from n v have "parse_lines (l # after) = Inr v" by simp
    from parse_lines_append[OF u this] parse_lines_append[OF u v] show ?thesis by simp
  qed
  have 4: "parse_lines ls = Inr []" if "\<forall>l\<in>set ls. first_match patterns l = None" for ls
    using that by (induction ls) simp_all
  have 5: "\<exists>report. analyzeStackTrace e stackTrace root = Inr report"
    using f by (simp add: analyzeStackTrace_def)
  have 6: "parseStackTrace stackTrace = Inr [] \<longleftrightarrow>
        analyzeStackTrace e stackTrace root = Inr CouldNotParse"
    using f by (auto simp: analyzeStackTrace_def)
  from f 2 4[of "split_nl stackTrace"] 5 6 parse_lines_append[of xs a ys b] show ?thesis
    unfolding parseStackTrace_def by blast
qed

theorem parse_never_fails_witness:
  "first_match patterns ''junk'' = None
   \<and> parse_lines ([job_trace] @ ''junk'' # [job_trace]) = parse_lines ([job_trace] @ [job_trace])
   \<and> parse_lines [job_trace] = Inr [frame_job3]
   \<and> parse_lines ([job_trace] @ [job_trace]) = Inr ([frame_job3] @ [frame_job3])
   \<and> split_nl ''no frame here'' = [''no frame here'']
   \<and> first_match patterns ''no frame here'' = None
   \<and> parseStackTrace ''no frame here'' = Inr []
   \<and> analyzeStackTrace one_line_env ''no frame here'' ''/r'' = Inr CouldNotParse"
proof -
  have j: "first_match patterns ''junk'' = None" by code_simp
  have p: "parse_lines [job_trace] = Inr [frame_job3]" by code_simp
  have s: "split_nl ''no frame here'' = [''no frame here'']" by code_simp
  have n: "first_match patterns ''no frame here'' = None" by code_simp
  from s n have b: "\<forall>l\<in>set (split_nl ''no frame here''). first_match patterns l = None"
    by (simp only: list.set ball_simps)
  note t = parse_never_fails[of "''no frame here''" "''junk''" "[job_trace]" "[job_trace]"
      "[job_trace]" "[frame_job3]" "[job_trace]" "[frame_job3]" one_line_env "''/r''"]
  from t j have 1: "parse_lines ([job_trace] @ ''junk'' # [job_trace])
      = parse_lines ([job_trace] @ [job_trace])" by blast
  from t p have 2: "parse_lines ([job_trace] @ [job_trace]) = Inr ([frame_job3] @ [frame_job3])"
    by blast
  from t b have 3: "parseStackTrace ''no frame here'' = Inr []" by blast
  with t have 4: "analyzeStackTrace one_line_env ''no frame here'' ''/r'' = Inr CouldNotParse"
    by blast
  from j 1 p 2 s n 3 4 show ?thesis by blast
qed

















end
